theory Spec2Isabelle
  imports Complex_Main "HOL-Library.Log_Nat"
begin

unbundle bit_operations_syntax

section \<open>Errors and Python values\<close>

text \<open>
  The exceptions that the module and the array backend can raise.  A computation that
  may raise returns \<open>error + 'a\<close>, with \<open>Inl\<close> for the exception.
\<close>

datatype error = TypeError | ValueError | AssertionError | AxisError

fun bind_result :: "error + 'a \<Rightarrow> ('a \<Rightarrow> error + 'b) \<Rightarrow> error + 'b" where
  "bind_result (Inl e) f = Inl e"
| "bind_result (Inr v) f = f v"

text \<open>
  The constructor arguments \<open>m\<close> and \<open>n\<close> are untyped in Python; these are the values
  a caller can pass (a \<open>bool\<close> is an \<open>int\<close> in Python, \<open>True\<close> being \<open>1\<close>).
\<close>

datatype pyval = PyInt int | PyFloat real | PyStr string | PyNone

text \<open>Python's \<open>*\<close> on these values: numbers multiply, a string is repeated by an
  integer, anything else raises \<open>TypeError\<close>.\<close>

fun py_mul :: "pyval \<Rightarrow> pyval \<Rightarrow> error + pyval" where
  "py_mul (PyInt a) (PyInt b) = Inr (PyInt (a * b))"
| "py_mul (PyInt a) (PyFloat b) = Inr (PyFloat (real_of_int a * b))"
| "py_mul (PyFloat a) (PyInt b) = Inr (PyFloat (a * real_of_int b))"
| "py_mul (PyFloat a) (PyFloat b) = Inr (PyFloat (a * b))"
| "py_mul (PyStr s) (PyInt b) = Inr (PyStr (concat (replicate (nat b) s)))"
| "py_mul (PyInt a) (PyStr s) = Inr (PyStr (concat (replicate (nat a) s)))"
| "py_mul _ _ = Inl TypeError"

section \<open>Arrays\<close>

text \<open>
  An array of the backend: its shape and its entries in row-major order.  A well-formed
  array has as many entries as its shape says.
\<close>

datatype 'a ndarray = NDArray (shape: "nat list") (data: "'a list")

definition ndim :: "'a ndarray \<Rightarrow> nat" where
  "ndim a = length (shape a)"

definition wf_ndarray :: "'a ndarray \<Rightarrow> bool" where
  "wf_ndarray a = (length (data a) = prod_list (shape a))"

definition valid_index :: "nat list \<Rightarrow> nat list \<Rightarrow> bool" where
  "valid_index sh idx = list_all2 (<) idx sh"

fun ravel :: "nat list \<Rightarrow> nat list \<Rightarrow> nat" where
  "ravel (d # ds) (i # is) = i * prod_list ds + ravel ds is"
| "ravel _ _ = 0"

fun unravel :: "nat list \<Rightarrow> nat \<Rightarrow> nat list" where
  "unravel [] k = []"
| "unravel (d # ds) k = (k div prod_list ds) # unravel ds (k mod prod_list ds)"

definition entry :: "'a ndarray \<Rightarrow> nat list \<Rightarrow> 'a" where
  "entry a idx = data a ! ravel (shape a) idx"

definition tabulate :: "nat list \<Rightarrow> (nat list \<Rightarrow> 'a) \<Rightarrow> 'a ndarray" where
  "tabulate sh f = NDArray sh (map (\<lambda>k. f (unravel sh k)) [0..<prod_list sh])"

definition indices :: "nat list \<Rightarrow> nat list list" where
  "indices sh = map (unravel sh) [0..<prod_list sh]"

section \<open>The array backend\<close>

text \<open>
  Modelled from the spec: the package \<open>geomstats.backend\<close> (imported as \<open>gs\<close>) is not
  among the sources.  The spec describes it as a dense array backend with the standard
  broadcasting rules, whose shape errors surface unchanged.  The definitions of this
  section follow that description, with the arithmetic of the entries taken exactly,
  over the reals; the arithmetic of doubles follows in its own sections: elementwise arithmetic and
  comparison, \<open>isclose\<close>, \<open>all\<close> over axes, \<open>transpose\<close> with an axis permutation,
  \<open>matmul\<close> with batch broadcasting, the contraction \<open>einsum('...ij,...ij->...')\<close>,
  \<open>to_ndarray\<close> and the sampler \<open>random.rand\<close>.
\<close>

text \<open>Broadcasting aligns two shapes at their last axis; two lengths are compatible
  when they are equal or one of them is one.\<close>

fun broadcast_rev :: "nat list \<Rightarrow> nat list \<Rightarrow> error + nat list" where
  "broadcast_rev [] ys = Inr ys"
| "broadcast_rev (x # xs) [] = Inr (x # xs)"
| "broadcast_rev (x # xs) (y # ys) =
     (if x = y \<or> y = 1 then bind_result (broadcast_rev xs ys) (\<lambda>r. Inr (x # r))
      else if x = 1 then bind_result (broadcast_rev xs ys) (\<lambda>r. Inr (y # r))
      else Inl ValueError)"

definition broadcast_shapes :: "nat list \<Rightarrow> nat list \<Rightarrow> error + nat list" where
  "broadcast_shapes s t = bind_result (broadcast_rev (rev s) (rev t)) (\<lambda>r. Inr (rev r))"

text \<open>The index at which an operand of shape \<open>sh\<close> is read for the index \<open>idx\<close> of the
  broadcast result: the trailing axes of \<open>idx\<close>, with \<open>0\<close> on the axes of length one.\<close>

definition broadcast_index :: "nat list \<Rightarrow> nat list \<Rightarrow> nat list" where
  "broadcast_index sh idx =
     map2 (\<lambda>d i. if d = 1 then 0 else i) sh (drop (length idx - length sh) idx)"

definition elementwise ::
  "('a \<Rightarrow> 'b \<Rightarrow> 'c) \<Rightarrow> 'a ndarray \<Rightarrow> 'b ndarray \<Rightarrow> error + 'c ndarray" where
  "elementwise f a b =
     bind_result (broadcast_shapes (shape a) (shape b)) (\<lambda>sh.
       Inr (tabulate sh (\<lambda>idx. f (entry a (broadcast_index (shape a) idx))
                                 (entry b (broadcast_index (shape b) idx)))))"

text \<open>The operators \<open>+\<close> and \<open>-\<close> on two arrays, unary \<open>-\<close>, and a scalar times an
  array.\<close>

definition nd_add :: "real ndarray \<Rightarrow> real ndarray \<Rightarrow> error + real ndarray" where
  "nd_add a b = elementwise (+) a b"

definition nd_sub :: "real ndarray \<Rightarrow> real ndarray \<Rightarrow> error + real ndarray" where
  "nd_sub a b = elementwise (-) a b"

definition nd_neg :: "real ndarray \<Rightarrow> real ndarray" where
  "nd_neg a = map_ndarray uminus a"

definition nd_smul :: "real \<Rightarrow> real ndarray \<Rightarrow> real ndarray" where
  "nd_smul c a = map_ndarray ((*) c) a"

text \<open>\<open>isclose(a, b, atol=atol)\<close> with the default relative tolerance \<open>1e-5\<close>.\<close>

definition rtol :: real where
  "rtol = 1 / 100000"

definition isclose :: "real ndarray \<Rightarrow> real ndarray \<Rightarrow> real \<Rightarrow> error + bool ndarray" where
  "isclose a b atol = elementwise (\<lambda>x y. \<bar>x - y\<bar> \<le> atol + rtol * \<bar>y\<bar>) a b"

text \<open>\<open>all(a, axes)\<close>: the conjunction over the given axes; the other axes remain.\<close>

definition all_axes :: "bool ndarray \<Rightarrow> nat list \<Rightarrow> error + bool ndarray" where
  "all_axes a axes =
     (if list_ex (\<lambda>ax. ax \<ge> ndim a) axes then Inl AxisError
      else if \<not> distinct axes then Inl ValueError
      else
        let keep = filter (\<lambda>d. d \<notin> set axes) [0..<ndim a]
        in Inr (tabulate (map ((!) (shape a)) keep)
                  (\<lambda>idx. list_all (entry a)
                     (filter (\<lambda>full. map ((!) full) keep = idx) (indices (shape a))))))"

text \<open>\<open>transpose(a, axes)\<close>: axis \<open>k\<close> of the result is axis \<open>axes[k]\<close> of \<open>a\<close>.\<close>

definition index_of :: "nat list \<Rightarrow> nat \<Rightarrow> nat" where
  "index_of axes d = length (takeWhile (\<lambda>x. x \<noteq> d) axes)"

definition transpose_axes :: "'a ndarray \<Rightarrow> nat list \<Rightarrow> error + 'a ndarray" where
  "transpose_axes a axes =
     (if length axes = ndim a \<and> list_all (\<lambda>d. d \<in> set axes) [0..<ndim a]
      then Inr (tabulate (map ((!) (shape a)) axes)
                  (\<lambda>idx. entry a (map (\<lambda>d. idx ! index_of axes d) [0..<ndim a])))
      else Inl ValueError)"

text \<open>
  \<open>matmul(a, b)\<close>: the product of the matrices in the last two axes, the leading axes
  broadcast.  A rank-one operand is read as a row (on the left) or a column (on the
  right) and that axis is dropped from the result; a scalar operand is refused.
\<close>

definition matmul :: "real ndarray \<Rightarrow> real ndarray \<Rightarrow> error + real ndarray" where
  "matmul a b =
     (if ndim a = 0 \<or> ndim b = 0 then Inl ValueError
      else
        let a2 = (if ndim a = 1 then NDArray (1 # shape a) (data a) else a);
            b2 = (if ndim b = 1 then NDArray (shape b @ [1]) (data b) else b);
            sa = butlast (butlast (shape a2));
            sb = butlast (butlast (shape b2));
            r = last (butlast (shape a2));
            k = last (shape a2);
            k' = last (butlast (shape b2));
            c = last (shape b2)
        in if k \<noteq> k' then Inl ValueError
           else bind_result (broadcast_shapes sa sb) (\<lambda>bs.
             let res = tabulate (bs @ [r, c])
                         (\<lambda>idx. let bi = take (length bs) idx;
                                   i = idx ! length bs;
                                   j = idx ! Suc (length bs)
                               in (\<Sum>l\<leftarrow>[0..<k]. entry a2 (broadcast_index sa bi @ [i, l])
                                                * entry b2 (broadcast_index sb bi @ [l, j])))
             in Inr (NDArray (bs @ (if ndim a = 1 then [] else [r])
                                 @ (if ndim b = 1 then [] else [c]))
                             (data res))))"

text \<open>\<open>einsum('...ij,...ij->...', a, b)\<close>: the last two axes are contracted, the leading
  axes broadcast.\<close>

definition einsum_ij_ij :: "real ndarray \<Rightarrow> real ndarray \<Rightarrow> error + real ndarray" where
  "einsum_ij_ij a b =
     (if ndim a < 2 \<or> ndim b < 2 then Inl ValueError
      else
        let sa = butlast (butlast (shape a));
            sb = butlast (butlast (shape b));
            r = last (butlast (shape a));
            c = last (shape a);
            r' = last (butlast (shape b));
            c' = last (shape b)
        in if r \<noteq> r' \<or> c \<noteq> c' then Inl ValueError
           else bind_result (broadcast_shapes sa sb) (\<lambda>bs.
             Inr (tabulate bs
                    (\<lambda>bi. \<Sum>i\<leftarrow>[0..<r]. \<Sum>j\<leftarrow>[0..<c].
                             entry a (broadcast_index sa bi @ [i, j])
                           * entry b (broadcast_index sb bi @ [i, j])))))"

text \<open>\<open>to_ndarray(x, to_ndim)\<close> brings a point to batched form: an array one rank below
  \<open>to_ndim\<close> gets a leading axis of length one, and the result must have at least rank
  \<open>to_ndim\<close>.\<close>

definition to_ndarray :: "'a ndarray \<Rightarrow> nat \<Rightarrow> error + 'a ndarray" where
  "to_ndarray x to_ndim =
     (let x' = (if Suc (ndim x) = to_ndim then NDArray (1 # shape x) (data x) else x)
      in if ndim x' \<ge> to_ndim then Inr x' else Inl AssertionError)"

text \<open>
  The shared pseudo-random source: a sequence of draws from \<open>[0, 1)\<close> and the number of
  draws consumed so far.  \<open>random.rand(*dims)\<close> fills an array of the given dimensions
  with the next draws and refuses a negative dimension.
\<close>

record rng =
  stream :: "nat \<Rightarrow> real"
  pos :: nat

definition rand :: "int list \<Rightarrow> rng \<Rightarrow> error + (real ndarray \<times> rng)" where
  "rand dims g =
     (if list_ex (\<lambda>d. d < 0) dims then Inl ValueError
      else
        let sh = map nat dims; cnt = prod_list sh
        in Inr (NDArray sh (map (\<lambda>k. stream g (pos g + k)) [0..<cnt]),
                g\<lparr>pos := pos g + cnt\<rparr>))"

section \<open>The class \<open>Matrices\<close>\<close>

text \<open>
  Modelled from the spec: \<open>geomstats.error.check_integer\<close> is not among the sources.
  The spec says construction fails when the argument is not a positive integer.
\<close>

fun check_integer :: "pyval \<Rightarrow> string \<Rightarrow> error + unit" where
  "check_integer (PyInt k) name = (if k > 0 then Inr () else Inl ValueError)"
| "check_integer _ name = Inl ValueError"

record MatricesMetric =
  metric_dim :: int
  signature :: "int \<times> int \<times> int"

record Matrices =
  dim :: int
  m :: int
  n :: int
  default_point_type :: string
  metric :: MatricesMetric

text \<open>
  Modelled from the spec: the base class \<open>Manifold\<close> is not among the sources; its
  constructor validates \<open>dim\<close> with \<open>check_integer\<close> and stores it.
\<close>

definition Manifold_init :: "pyval \<Rightarrow> error + int" where
  "Manifold_init d =
     bind_result (check_integer d ''dim'')
       (\<lambda>_. case d of PyInt k \<Rightarrow> Inr k | _ \<Rightarrow> Inl ValueError)"

text \<open>\<open>MatricesMetric.__init__\<close>: \<open>dimension = m * n\<close>, signature \<open>(dimension, 0, 0)\<close>.\<close>

definition MatricesMetric_init :: "int \<Rightarrow> int \<Rightarrow> MatricesMetric" where
  "MatricesMetric_init m0 n0 =
     (let dimension = m0 * n0
      in \<lparr>metric_dim = dimension, signature = (dimension, 0, 0)\<rparr>)"

text \<open>
  \<open>Matrices.__init__\<close>: the product \<open>m * n\<close> is evaluated first and handed to the base
  class, then \<open>n\<close> and \<open>m\<close> are checked, in this order, then the fields are set.
\<close>

definition Matrices_init :: "pyval \<Rightarrow> pyval \<Rightarrow> error + Matrices" where
  "Matrices_init m0 n0 =
     bind_result (py_mul m0 n0) (\<lambda>d.
     bind_result (Manifold_init d) (\<lambda>dm.
     bind_result (check_integer n0 ''n'') (\<lambda>_.
     bind_result (check_integer m0 ''m'') (\<lambda>_.
       case (m0, n0) of
         (PyInt mi, PyInt ni) \<Rightarrow>
           Inr \<lparr>dim = dm, m = mi, n = ni, default_point_type = ''matrix'',
                metric = MatricesMetric_init mi ni\<rparr>
       | _ \<Rightarrow> Inl ValueError))))"

text \<open>
  \<open>Matrices.belongs\<close>.  The point is brought to rank 3 and its shape is unpacked into
  three names, which raises \<open>ValueError\<close> for any other rank.  In the returned
  expression \<open>mat_dim_1 == self.m & mat_dim_2 == self.n\<close> the operator \<open>&\<close> binds
  tighter than \<open>==\<close>, so Python reads the chained comparison
  \<open>mat_dim_1 == (self.m & mat_dim_2) == self.n\<close>.
\<close>

definition belongs :: "Matrices \<Rightarrow> 'a ndarray \<Rightarrow> error + bool" where
  "belongs self point =
     bind_result (to_ndarray point 3) (\<lambda>point.
       case shape point of
         [_, mat_dim_1, mat_dim_2] \<Rightarrow>
           Inr (int mat_dim_1 = (m self AND int mat_dim_2)
                \<and> (m self AND int mat_dim_2) = n self)
       | _ \<Rightarrow> Inl ValueError)"

text \<open>\<open>TOLERANCE = 1e-5\<close>\<close>

definition TOLERANCE :: real where
  "TOLERANCE = 1 / 100000"

text \<open>\<open>Matrices.equal\<close>: closeness of all entries, reduced over the matrix axes.\<close>

definition equal_mat :: "real ndarray \<Rightarrow> real ndarray \<Rightarrow> real \<Rightarrow> error + bool ndarray" where
  "equal_mat mat_a mat_b atol =
     (let is_vectorized = (ndim mat_a = 3 \<or> ndim mat_b = 3);
          axes = (if is_vectorized then [1, 2] else [0, 1])
      in bind_result (isclose mat_a mat_b atol) (\<lambda>close. all_axes close axes))"

text \<open>\<open>functools.reduce\<close> without an initial value: an empty sequence raises
  \<open>TypeError\<close>, a single element is returned as it is, and otherwise the function is
  applied from the left; the first exception ends the reduction.\<close>

fun reduce :: "('a \<Rightarrow> 'a \<Rightarrow> error + 'a) \<Rightarrow> 'a list \<Rightarrow> error + 'a" where
  "reduce f [] = Inl TypeError"
| "reduce f (x # xs) = foldl (\<lambda>acc y. bind_result acc (\<lambda>v. f v y)) (Inr x) xs"

text \<open>\<open>Matrices.mul(*args)\<close>\<close>

definition mul :: "real ndarray list \<Rightarrow> error + real ndarray" where
  "mul args = reduce matmul args"

text \<open>\<open>Matrices.bracket\<close>: \<open>cls.mul(mat_a, mat_b) - cls.mul(mat_b, mat_a)\<close>\<close>

definition bracket :: "real ndarray \<Rightarrow> real ndarray \<Rightarrow> error + real ndarray" where
  "bracket mat_a mat_b =
     bind_result (mul [mat_a, mat_b]) (\<lambda>ab.
     bind_result (mul [mat_b, mat_a]) (\<lambda>ba. nd_sub ab ba))"

text \<open>\<open>Matrices.transpose\<close>: the axes are \<open>(0, 2, 1)\<close> for an array of rank 3 and
  \<open>(1, 0)\<close> for any other.\<close>

definition transpose_mat :: "'a ndarray \<Rightarrow> error + 'a ndarray" where
  "transpose_mat mat =
     (let is_vectorized = (ndim mat = 3);
          axes = (if is_vectorized then [0, 2, 1] else [1, 0])
      in transpose_axes mat axes)"

definition is_symmetric :: "real ndarray \<Rightarrow> real \<Rightarrow> error + bool ndarray" where
  "is_symmetric mat atol =
     bind_result (transpose_mat mat) (\<lambda>t. equal_mat mat t atol)"

definition is_skew_symmetric :: "real ndarray \<Rightarrow> real \<Rightarrow> error + bool ndarray" where
  "is_skew_symmetric mat atol =
     bind_result (transpose_mat mat) (\<lambda>t. equal_mat mat (nd_neg t) atol)"

text \<open>\<open>Matrices.to_symmetric\<close>: \<open>1 / 2 * (mat + cls.transpose(mat))\<close>\<close>

definition to_symmetric :: "real ndarray \<Rightarrow> error + real ndarray" where
  "to_symmetric mat =
     bind_result (transpose_mat mat) (\<lambda>t.
     bind_result (nd_add mat t) (\<lambda>s. Inr (nd_smul (1 / 2) s)))"

text \<open>\<open>Matrices.to_skew_symmetric\<close>: \<open>1 / 2 * (mat - cls.transpose(mat))\<close>\<close>

definition to_skew_symmetric :: "real ndarray \<Rightarrow> error + real ndarray" where
  "to_skew_symmetric mat =
     bind_result (transpose_mat mat) (\<lambda>t.
     bind_result (nd_sub mat t) (\<lambda>s. Inr (nd_smul (1 / 2) s)))"

text \<open>\<open>Matrices.random_uniform\<close>: \<open>bound * (gs.random.rand(*size) - 0.5)\<close>, the random
  source passed in and returned.\<close>

definition random_uniform ::
  "Matrices \<Rightarrow> int \<Rightarrow> real \<Rightarrow> rng \<Rightarrow> error + (real ndarray \<times> rng)" where
  "random_uniform self n_samples bound g =
     (let dims = (if n_samples \<noteq> 1 then [n_samples, m self, n self] else [m self, n self])
      in bind_result (rand dims g) (\<lambda>(u, g').
           Inr (nd_smul bound (map_ndarray (\<lambda>x. x - 1 / 2) u), g')))"

text \<open>\<open>Matrices.congruent\<close>: \<open>cls.mul(mat_2, mat_1, cls.transpose(mat_2))\<close>\<close>

definition congruent_mat :: "real ndarray \<Rightarrow> real ndarray \<Rightarrow> error + real ndarray" where
  "congruent_mat mat_1 mat_2 =
     bind_result (transpose_mat mat_2) (\<lambda>t. mul [mat_2, mat_1, t])"

text \<open>\<open>MatricesMetric.inner_product\<close>; the base point is not used.\<close>

definition inner_product ::
  "MatricesMetric \<Rightarrow> real ndarray \<Rightarrow> real ndarray \<Rightarrow> real ndarray option
     \<Rightarrow> error + real ndarray" where
  "inner_product self tangent_vec_a tangent_vec_b base_point =
     einsum_ij_ij tangent_vec_a tangent_vec_b"

text \<open>What the spec calls a positive integer, on the values a caller can pass.\<close>

fun is_positive_integer :: "pyval \<Rightarrow> bool" where
  "is_positive_integer (PyInt k) = (k > 0)"
| "is_positive_integer _ = False"

section \<open>Notions used in the statements\<close>

text \<open>The index with its last two components exchanged: where the transpose of a
  matrix, or of each matrix of a batch, reads its operand.\<close>

definition swap_last2 :: "nat list \<Rightarrow> nat list" where
  "swap_last2 idx = butlast (butlast idx) @ [last idx, last (butlast idx)]"

text \<open>The product of two matrices, or of the matrices of two batches of one batch
  shape \<open>bs\<close>, as the spec words it (standard matrix multiplication): the entry in row
  \<open>i\<close> and column \<open>j\<close> is the sum over \<open>l\<close> of \<open>a[i, l] * b[l, j]\<close>.\<close>

definition matrix_product ::
  "nat list \<Rightarrow> nat \<Rightarrow> nat \<Rightarrow> nat \<Rightarrow> real ndarray \<Rightarrow> real ndarray \<Rightarrow> real ndarray" where
  "matrix_product bs r k c a b =
     tabulate (bs @ [r, c])
       (\<lambda>idx. \<Sum>l\<leftarrow>[0..<k]. entry a (butlast (butlast idx) @ [last (butlast idx), l])
                          * entry b (butlast (butlast idx) @ [l, last idx]))"

text \<open>The array of the given shape with every entry zero.\<close>

definition zeros :: "nat list \<Rightarrow> real ndarray" where
  "zeros sh = NDArray sh (replicate (prod_list sh) 0)"

text \<open>The left-to-right chained product \<open>a1 \<cdot> a2 \<cdots> an\<close> of the spec, and when the
  operands are compatible: each has rank at least two, the batch shapes agree and the
  rows of an operand are as many as the columns of the product before it.\<close>

definition batch_shape :: "'a ndarray \<Rightarrow> nat list" where
  "batch_shape a = butlast (butlast (shape a))"

definition mat_rows :: "'a ndarray \<Rightarrow> nat" where
  "mat_rows a = last (butlast (shape a))"

definition mat_cols :: "'a ndarray \<Rightarrow> nat" where
  "mat_cols a = last (shape a)"

definition product2 :: "real ndarray \<Rightarrow> real ndarray \<Rightarrow> real ndarray" where
  "product2 a b = matrix_product (batch_shape a) (mat_rows a) (mat_cols a) (mat_cols b) a b"

fun chain_product :: "real ndarray \<Rightarrow> real ndarray list \<Rightarrow> real ndarray" where
  "chain_product acc [] = acc"
| "chain_product acc (a # as) = chain_product (product2 acc a) as"

fun chain_compatible :: "real ndarray \<Rightarrow> real ndarray list \<Rightarrow> bool" where
  "chain_compatible acc [] = True"
| "chain_compatible acc (a # as) =
     (2 \<le> ndim acc \<and> 2 \<le> ndim a \<and> batch_shape a = batch_shape acc
      \<and> mat_rows a = mat_cols acc \<and> chain_compatible (product2 acc a) as)"

section \<open>IEEE-754 double arithmetic\<close>

text \<open>
  Modelled from the spec: the arithmetic of the backend is IEEE-754 double precision
  (spec, section 6).  Every operation computes the exact real result and rounds it to
  the nearest double, a tie going to the even significand.
\<close>

text \<open>A double: a finite value (a real number on the binary64 grid), an infinity or NaN.
  The sign of a zero is not represented; no operation of the module observes it.\<close>

datatype double = Fin real | PInf | NInf | NaN

text \<open>The binary exponent of a positive real: \<open>2^e \<le> x < 2^(e+1)\<close>.\<close>

definition ilog2 :: "real \<Rightarrow> int" where
  "ilog2 x = (if 1 \<le> x then bitlen \<lfloor>x\<rfloor> - 1 else - bitlen (\<lceil>1 / x\<rceil> - 1))"

text \<open>Rounding to the nearest integer, a tie going to the even one.\<close>

definition round_half_even :: "real \<Rightarrow> int" where
  "round_half_even t =
     (let k = \<lfloor>t\<rfloor>; f = t - of_int k
      in if f < 1 / 2 then k else if 1 / 2 < f then k + 1
         else if even k then k else k + 1)"

text \<open>Rounding to the nearest multiple of \<open>2^q\<close>.\<close>

definition round_grid :: "int \<Rightarrow> real \<Rightarrow> real" where
  "round_grid q x = of_int (round_half_even (x / 2 powi q)) * 2 powi q"

text \<open>The spacing of the doubles around \<open>x\<close>: 53 significant bits, and the fixed spacing
  \<open>2^-1074\<close> of the subnormal range.\<close>

definition grid_exponent :: "real \<Rightarrow> int" where
  "grid_exponent x = max (ilog2 x - 52) (- 1074)"

text \<open>Rounding a positive real to a double; a result of \<open>2^1024\<close> or more overflows.\<close>

definition round_pos :: "real \<Rightarrow> double" where
  "round_pos x =
     (let r = round_grid (grid_exponent x) x in if 2 ^ 1024 \<le> r then PInf else Fin r)"

fun fneg :: "double \<Rightarrow> double" where
  "fneg (Fin x) = Fin (- x)"
| "fneg PInf = NInf"
| "fneg NInf = PInf"
| "fneg NaN = NaN"

text \<open>Rounding a real to the nearest double.\<close>

definition round64 :: "real \<Rightarrow> double" where
  "round64 x = (if x = 0 then Fin 0 else if 0 < x then round_pos x else fneg (round_pos (- x)))"

text \<open>Addition, subtraction and multiplication of doubles: the exact result, rounded;
  the IEEE rules for infinities and NaN.\<close>

fun fadd :: "double \<Rightarrow> double \<Rightarrow> double" where
  "fadd (Fin x) (Fin y) = round64 (x + y)"
| "fadd NaN _ = NaN"
| "fadd _ NaN = NaN"
| "fadd PInf NInf = NaN"
| "fadd NInf PInf = NaN"
| "fadd PInf _ = PInf"
| "fadd _ PInf = PInf"
| "fadd NInf _ = NInf"
| "fadd _ NInf = NInf"

definition fsub :: "double \<Rightarrow> double \<Rightarrow> double" where
  "fsub a b = fadd a (fneg b)"

fun fmul :: "double \<Rightarrow> double \<Rightarrow> double" where
  "fmul (Fin x) (Fin y) = round64 (x * y)"
| "fmul NaN _ = NaN"
| "fmul _ NaN = NaN"
| "fmul PInf (Fin y) = (if y = 0 then NaN else if 0 < y then PInf else NInf)"
| "fmul NInf (Fin y) = (if y = 0 then NaN else if 0 < y then NInf else PInf)"
| "fmul (Fin x) PInf = (if x = 0 then NaN else if 0 < x then PInf else NInf)"
| "fmul (Fin x) NInf = (if x = 0 then NaN else if 0 < x then NInf else PInf)"
| "fmul PInf PInf = PInf"
| "fmul PInf NInf = NInf"
| "fmul NInf PInf = NInf"
| "fmul NInf NInf = PInf"

text \<open>Absolute value, the comparisons \<open><=\<close> and \<open>==\<close> (false on NaN), and finiteness.\<close>

fun fabs :: "double \<Rightarrow> double" where
  "fabs (Fin x) = Fin \<bar>x\<bar>"
| "fabs PInf = PInf"
| "fabs NInf = PInf"
| "fabs NaN = NaN"

fun fle :: "double \<Rightarrow> double \<Rightarrow> bool" where
  "fle (Fin x) (Fin y) = (x \<le> y)"
| "fle NaN _ = False"
| "fle _ NaN = False"
| "fle NInf _ = True"
| "fle _ PInf = True"
| "fle PInf _ = False"
| "fle _ NInf = False"

fun feq :: "double \<Rightarrow> double \<Rightarrow> bool" where
  "feq NaN _ = False"
| "feq _ NaN = False"
| "feq a b = (a = b)"

fun is_finite :: "double \<Rightarrow> bool" where
  "is_finite (Fin x) = True"
| "is_finite _ = False"

section \<open>The backend and the class over doubles\<close>

text \<open>
  Modelled from the spec: the operations of \<open>geomstats.backend\<close> on arrays of doubles.
  The definitions of the sections before evaluate the same code over exact real
  arithmetic.
\<close>



definition nd_sub64 :: "double ndarray \<Rightarrow> double ndarray \<Rightarrow> error + double ndarray" where
  "nd_sub64 a b = elementwise fsub a b"

definition nd_neg64 :: "double ndarray \<Rightarrow> double ndarray" where
  "nd_neg64 a = map_ndarray fneg a"


text \<open>\<open>isclose(a, b, atol=atol)\<close> on doubles, with the default relative tolerance
  \<open>1e-5\<close>: finite entries are compared by \<open>|x - y| <= atol + rtol * |y|\<close>, evaluated in
  doubles, and the others by \<open>==\<close>.\<close>

definition rtol64 :: double where
  "rtol64 = round64 (1 / 100000)"

definition close64 :: "double \<Rightarrow> double \<Rightarrow> double \<Rightarrow> bool" where
  "close64 atol x y =
     (if is_finite x \<and> is_finite y
      then fle (fabs (fsub x y)) (fadd atol (fmul rtol64 (fabs y)))
      else feq x y)"

definition isclose64 ::
  "double ndarray \<Rightarrow> double ndarray \<Rightarrow> double \<Rightarrow> error + bool ndarray" where
  "isclose64 a b atol = elementwise (close64 atol) a b"

text \<open>\<open>matmul(a, b)\<close> on doubles.  The products of a row and a column are accumulated
  from the left, starting from zero; the backend leaves the order of accumulation
  open.\<close>

definition matmul64 :: "double ndarray \<Rightarrow> double ndarray \<Rightarrow> error + double ndarray" where
  "matmul64 a b =
     (if ndim a = 0 \<or> ndim b = 0 then Inl ValueError
      else
        let a2 = (if ndim a = 1 then NDArray (1 # shape a) (data a) else a);
            b2 = (if ndim b = 1 then NDArray (shape b @ [1]) (data b) else b);
            sa = butlast (butlast (shape a2));
            sb = butlast (butlast (shape b2));
            r = last (butlast (shape a2));
            k = last (shape a2);
            k' = last (butlast (shape b2));
            c = last (shape b2)
        in if k \<noteq> k' then Inl ValueError
           else bind_result (broadcast_shapes sa sb) (\<lambda>bs.
             let res = tabulate (bs @ [r, c])
                         (\<lambda>idx. let bi = take (length bs) idx;
                                   i = idx ! length bs;
                                   j = idx ! Suc (length bs)
                               in foldl fadd (Fin 0)
                                    (map (\<lambda>l. fmul (entry a2 (broadcast_index sa bi @ [i, l]))
                                                   (entry b2 (broadcast_index sb bi @ [l, j])))
                                         [0..<k]))
             in Inr (NDArray (bs @ (if ndim a = 1 then [] else [r])
                                 @ (if ndim b = 1 then [] else [c]))
                             (data res))))"




text \<open>\<open>TOLERANCE = 1e-5\<close>, the double nearest to \<open>10^-5\<close>.\<close>

definition TOLERANCE64 :: double where
  "TOLERANCE64 = round64 (1 / 100000)"

text \<open>The methods of \<open>Matrices\<close> and \<open>MatricesMetric\<close> evaluated on arrays of doubles:
  \<open>equal\<close>, \<open>mul\<close>, \<open>bracket\<close>, \<open>is_symmetric\<close>, \<open>to_symmetric\<close>, \<open>to_skew_symmetric\<close>,
  \<open>random_uniform\<close>, \<open>congruent\<close> and \<open>inner_product\<close>.  Their bodies are those of the
  definitions above, with the arithmetic of doubles; \<open>transpose\<close> does no arithmetic
  and is shared.\<close>

definition equal_mat64 ::
  "double ndarray \<Rightarrow> double ndarray \<Rightarrow> double \<Rightarrow> error + bool ndarray" where
  "equal_mat64 mat_a mat_b atol =
     (let is_vectorized = (ndim mat_a = 3 \<or> ndim mat_b = 3);
          axes = (if is_vectorized then [1, 2] else [0, 1])
      in bind_result (isclose64 mat_a mat_b atol) (\<lambda>close. all_axes close axes))"

definition mul64 :: "double ndarray list \<Rightarrow> error + double ndarray" where
  "mul64 args = reduce matmul64 args"

definition bracket64 :: "double ndarray \<Rightarrow> double ndarray \<Rightarrow> error + double ndarray" where
  "bracket64 mat_a mat_b =
     bind_result (mul64 [mat_a, mat_b]) (\<lambda>ab.
     bind_result (mul64 [mat_b, mat_a]) (\<lambda>ba. nd_sub64 ab ba))"

definition is_symmetric64 :: "double ndarray \<Rightarrow> double \<Rightarrow> error + bool ndarray" where
  "is_symmetric64 mat atol =
     bind_result (transpose_mat mat) (\<lambda>t. equal_mat64 mat t atol)"




definition congruent_mat64 :: "double ndarray \<Rightarrow> double ndarray \<Rightarrow> error + double ndarray" where
  "congruent_mat64 mat_1 mat_2 =
     bind_result (transpose_mat mat_2) (\<lambda>t. mul64 [mat_2, mat_1, t])"


text \<open>The product of two matrices, or of two batches of one batch shape, in double
  arithmetic, and the array of zeros.\<close>

definition matrix_product64 ::
  "nat list \<Rightarrow> nat \<Rightarrow> nat \<Rightarrow> nat \<Rightarrow> double ndarray \<Rightarrow> double ndarray \<Rightarrow> double ndarray" where
  "matrix_product64 bs r k c a b =
     tabulate (bs @ [r, c])
       (\<lambda>idx. foldl fadd (Fin 0)
          (map (\<lambda>l. fmul (entry a (butlast (butlast idx) @ [last (butlast idx), l]))
                         (entry b (butlast (butlast idx) @ [l, last idx])))
               [0..<k]))"

definition zeros64 :: "nat list \<Rightarrow> double ndarray" where
  "zeros64 sh = NDArray sh (replicate (prod_list sh) (Fin 0))"



section \<open>Indexing\<close>

lemma ravel_less: "list_all2 (<) idx sh \<Longrightarrow> ravel sh idx < prod_list sh"
proof (induction sh arbitrary: idx)
  case Nil
  then show ?case by simp
next
  case (Cons d ds)
  then obtain i js where idx: "idx = i # js" and i: "i < d" and js: "list_all2 (<) js ds"
    by (auto simp: list_all2_Cons2)
  have r: "ravel ds js < prod_list ds" using Cons.IH js by simp
  have "i * prod_list ds + ravel ds js < i * prod_list ds + prod_list ds" using r by simp
  also have "\<dots> = Suc i * prod_list ds" by simp
  also have "\<dots> \<le> d * prod_list ds" using i by (intro mult_le_mono1) simp
  finally show ?case by (simp add: idx)
qed

lemma unravel_ravel: "list_all2 (<) idx sh \<Longrightarrow> unravel sh (ravel sh idx) = idx"
proof (induction sh arbitrary: idx)
  case Nil
  then show ?case by simp
next
  case (Cons d ds)
  then obtain i js where idx: "idx = i # js" and i: "i < d" and js: "list_all2 (<) js ds"
    by (auto simp: list_all2_Cons2)
  have r: "ravel ds js < prod_list ds" using js by (rule ravel_less)
  show ?case using Cons.IH[OF js] r by (simp add: idx)
qed

lemma unravel_valid: "k < prod_list sh \<Longrightarrow> list_all2 (<) (unravel sh k) sh"
proof (induction sh arbitrary: k)
  case Nil
  then show ?case by simp
next
  case (Cons d ds)
  then have pos: "0 < prod_list ds" by (cases "prod_list ds = 0") auto
  have "k div prod_list ds < d" using Cons.prems pos
    by (simp add: less_mult_imp_div_less mult.commute)
  moreover have "k mod prod_list ds < prod_list ds" using pos by simp
  ultimately show ?case using Cons.IH by simp
qed

lemma ravel_unravel: "k < prod_list sh \<Longrightarrow> ravel sh (unravel sh k) = k"
proof (induction sh arbitrary: k)
  case Nil
  then show ?case by simp
next
  case (Cons d ds)
  then have pos: "0 < prod_list ds" by (cases "prod_list ds = 0") auto
  then have "k mod prod_list ds < prod_list ds" by simp
  then show ?case using Cons.IH by simp
qed

lemma shape_tabulate [simp]: "shape (tabulate sh f) = sh"
  by (simp add: tabulate_def)

lemma wf_tabulate [simp]: "wf_ndarray (tabulate sh f)"
  by (simp add: tabulate_def wf_ndarray_def)

lemma entry_tabulate:
  "valid_index sh idx \<Longrightarrow> entry (tabulate sh f) idx = f idx"
  by (simp add: entry_def tabulate_def valid_index_def ravel_less unravel_ravel)

lemma tabulate_cong:
  "(\<And>idx. valid_index sh idx \<Longrightarrow> f idx = g idx) \<Longrightarrow> tabulate sh f = tabulate sh g"
  by (simp add: tabulate_def valid_index_def unravel_valid)

lemma tabulate_entry:
  "wf_ndarray a \<Longrightarrow> tabulate (shape a) (entry a) = a"
  by (cases a) (auto simp: tabulate_def entry_def wf_ndarray_def ravel_unravel intro!: nth_equalityI)

section \<open>Construction\<close>

lemma Matrices_init_rejects:
  assumes "\<not> is_positive_integer m0 \<or> \<not> is_positive_integer n0"
  shows "Matrices_init m0 n0 =
           Inl (if py_mul m0 n0 = Inl TypeError then TypeError else ValueError)"
  using assms
  by (cases m0; cases n0)
     (auto simp: Matrices_init_def Manifold_init_def zero_less_mult_iff)

lemma Matrices_init_accepts:
  assumes "0 < a" "0 < b"
  shows "Matrices_init (PyInt a) (PyInt b) =
     Inr \<lparr>dim = a * b, m = a, n = b, default_point_type = ''matrix'',
          metric = \<lparr>metric_dim = a * b, signature = (a * b, 0, 0)\<rparr>\<rparr>"
  using assms
  by (simp add: Matrices_init_def Manifold_init_def MatricesMetric_init_def Let_def)

text \<open>
  Claim C9.  Constructing the space fails whenever \<open>m\<close> or \<open>n\<close> is not a positive
  integer: with \<open>TypeError\<close> when the product \<open>m * n\<close> is not defined, and with the
  \<open>ValueError\<close> of the check otherwise; nothing catches the exception, so it reaches the
  caller.  For positive integers \<open>m\<close> and \<open>n\<close> construction succeeds, with
  \<open>dim = m * n\<close>.
\<close>

theorem Matrices_init_validates:
  "(\<not> is_positive_integer m0 \<or> \<not> is_positive_integer n0 \<longrightarrow>
      Matrices_init m0 n0 =
        Inl (if py_mul m0 n0 = Inl TypeError then TypeError else ValueError))
   \<and> (0 < a \<and> 0 < b \<longrightarrow>
      Matrices_init (PyInt a) (PyInt b) =
        Inr \<lparr>dim = a * b, m = a, n = b, default_point_type = ''matrix'',
             metric = \<lparr>metric_dim = a * b, signature = (a * b, 0, 0)\<rparr>\<rparr>)"
  using Matrices_init_rejects [of m0 n0] Matrices_init_accepts [of a b] by blast

theorem Matrices_init_validates_witness:
  "\<not> is_positive_integer (PyInt 0)
   \<and> Matrices_init (PyInt 0) (PyInt 3) = Inl ValueError
   \<and> (0::int) < 2 \<and> (0::int) < 3
   \<and> Matrices_init (PyInt 2) (PyInt 3) =
        Inr \<lparr>dim = 6, m = 2, n = 3, default_point_type = ''matrix'',
             metric = \<lparr>metric_dim = 6, signature = (6, 0, 0)\<rparr>\<rparr>"
  using Matrices_init_validates [of "PyInt 0" "PyInt 3" 2 3] by simp

section \<open>Membership\<close>

lemma belongs_shape2:
  assumes "shape X = [r, c]"
  shows "belongs sp X = Inr (int r = (m sp AND int c) \<and> (m sp AND int c) = n sp)"
  using assms by (simp add: belongs_def to_ndarray_def ndim_def)

lemma belongs_shape3:
  assumes "shape X = [b, r, c]"
  shows "belongs sp X = Inr (int r = (m sp AND int c) \<and> (m sp AND int c) = n sp)"
  using assms by (simp add: belongs_def to_ndarray_def ndim_def)

text \<open>On a matrix of the space's own shape the test answers whether \<open>m = n\<close>.\<close>

lemma belongs_own_shape:
  assumes "shape X = [nat (m sp), nat (n sp)]" "0 \<le> m sp" "0 \<le> n sp"
  shows "belongs sp X = Inr (m sp = n sp)"
  using assms by (auto simp add: belongs_shape2)

text \<open>A matrix with one row more is refused.\<close>

lemma belongs_extra_row:
  assumes "shape X = [nat (m sp) + 1, nat (n sp)]" "0 \<le> m sp" "0 \<le> n sp"
  shows "belongs sp X = Inr False"
proof -
  have "(m sp AND n sp) \<le> m sp" using assms by (simp add: AND_upper1)
  then have "1 + m sp \<noteq> (m sp AND n sp)" by linarith
  then show ?thesis using assms by (simp add: belongs_shape2)
qed

text \<open>
  Claim C1.  A matrix of shape \<open>(m, n)\<close> should belong to the space of \<open>m \<times> n\<close>
  matrices.  For \<open>m = 2\<close> and \<open>n = 3\<close> the code answers \<open>False\<close> on a matrix of shape
  \<open>(2, 3)\<close>: it evaluates \<open>2 == (2 & 3) == 3\<close>.
\<close>

theorem belongs_2_3_refused:
  "bind_result (Matrices_init (PyInt 2) (PyInt 3))
     (\<lambda>sp. belongs sp (NDArray [2, 3] [1, 2, 3, 4, 5, 6 :: real])) = Inr False"
  by (simp add: Matrices_init_def Manifold_init_def MatricesMetric_init_def
        belongs_def to_ndarray_def ndim_def)

section \<open>Arrays of one shape, transposition\<close>

lemma swap_last2_append [simp]: "swap_last2 (bi @ [i, j]) = bi @ [j, i]"
  by (simp add: swap_last2_def butlast_append)

lemma valid_index_Nil [simp]: "valid_index [] idx \<longleftrightarrow> idx = []"
  by (auto simp: valid_index_def)

lemma valid_index_length: "valid_index sh idx \<Longrightarrow> length idx = length sh"
  by (simp add: valid_index_def list_all2_lengthD)

lemma valid_index_appendI [simp]:
  "valid_index (bs @ [r, c]) (bi @ [i, j]) \<longleftrightarrow> valid_index bs bi \<and> i < r \<and> j < c"
proof (cases "length bi = length bs")
  case True
  then show ?thesis by (simp add: valid_index_def list_all2_append)
next
  case False
  then show ?thesis by (auto simp: valid_index_def dest: list_all2_lengthD)
qed

lemma valid_index_append:
  "valid_index (bs @ [r, c]) idx \<longleftrightarrow>
     (\<exists>bi i j. idx = bi @ [i, j] \<and> valid_index bs bi \<and> i < r \<and> j < c)"
proof
  assume "valid_index (bs @ [r, c]) idx"
  then obtain us vs where "idx = us @ vs" "list_all2 (<) us bs" "list_all2 (<) vs [r, c]"
    by (auto simp: valid_index_def list_all2_append2)
  then show "\<exists>bi i j. idx = bi @ [i, j] \<and> valid_index bs bi \<and> i < r \<and> j < c"
    by (auto simp: valid_index_def list_all2_Cons2)
next
  assume "\<exists>bi i j. idx = bi @ [i, j] \<and> valid_index bs bi \<and> i < r \<and> j < c"
  then show "valid_index (bs @ [r, c]) idx" by auto
qed

lemma broadcast_rev_same: "broadcast_rev xs xs = Inr xs"
  by (induction xs) auto

lemma broadcast_shapes_same [simp]: "broadcast_shapes s s = Inr s"
  by (simp add: broadcast_shapes_def broadcast_rev_same)

lemma broadcast_index_same:
  "valid_index sh idx \<Longrightarrow> broadcast_index sh idx = idx"
proof -
  assume "valid_index sh idx"
  then have "list_all2 (<) idx sh" by (simp add: valid_index_def)
  then have "map2 (\<lambda>d i. if d = 1 then 0 else i) sh idx = idx"
    by (induction rule: list_all2_induct) auto
  moreover have "length idx = length sh" using \<open>list_all2 (<) idx sh\<close> by (rule list_all2_lengthD)
  ultimately show ?thesis by (simp add: broadcast_index_def)
qed

lemma elementwise_same:
  assumes "shape a = shape b"
  shows "elementwise f a b = Inr (tabulate (shape a) (\<lambda>idx. f (entry a idx) (entry b idx)))"
proof -
  have "tabulate (shape a) (\<lambda>idx. f (entry a (broadcast_index (shape a) idx))
                                 (entry b (broadcast_index (shape b) idx)))
        = tabulate (shape a) (\<lambda>idx. f (entry a idx) (entry b idx))"
    by (rule tabulate_cong) (simp add: broadcast_index_same assms [symmetric])
  then show ?thesis by (simp add: elementwise_def assms [symmetric])
qed

lemma map_ndarray_tabulate: "map_ndarray g (tabulate sh f) = tabulate sh (\<lambda>idx. g (f idx))"
  by (simp add: tabulate_def)

lemma tabulate_const: "tabulate sh (\<lambda>_. c) = NDArray sh (replicate (prod_list sh) c)"
  by (simp add: tabulate_def map_replicate_const)

lemma transpose_mat_tab:
  assumes "shape X = bs @ [r, c]" "length bs \<le> 1"
  shows "transpose_mat X = Inr (tabulate (bs @ [c, r]) (\<lambda>idx. entry X (swap_last2 idx)))"
proof (cases bs)
  case Nil
  have "tabulate [c, r] (\<lambda>idx. entry X (map (\<lambda>d. idx ! index_of [1, 0] d) [0..<2]))
      = tabulate [c, r] (\<lambda>idx. entry X (swap_last2 idx))"
  proof (rule tabulate_cong)
    fix idx assume "valid_index [c, r] idx"
    then obtain i j where "idx = [i, j]"
      using valid_index_append [of "[]" c r idx] by auto
    then show "entry X (map (\<lambda>d. idx ! index_of [1, 0] d) [0..<2]) = entry X (swap_last2 idx)"
      by (simp add: index_of_def swap_last2_def upt_rec numeral_2_eq_2)
  qed
  then show ?thesis using assms Nil
    by (simp add: transpose_mat_def transpose_axes_def ndim_def upt_rec numeral_2_eq_2)
next
  case (Cons k ks)
  then have bs: "bs = [k]" using assms by simp
  have "tabulate [k, c, r] (\<lambda>idx. entry X (map (\<lambda>d. idx ! index_of [0, 2, 1] d) [0..<3]))
      = tabulate [k, c, r] (\<lambda>idx. entry X (swap_last2 idx))"
  proof (rule tabulate_cong)
    fix idx assume "valid_index [k, c, r] idx"
    then obtain b i j where "idx = [b, i, j]"
      using valid_index_append [of "[k]" c r idx] by (auto simp: valid_index_def list_all2_Cons2)
    then show "entry X (map (\<lambda>d. idx ! index_of [0, 2, 1] d) [0..<3]) = entry X (swap_last2 idx)"
      by (simp add: index_of_def swap_last2_def upt_rec numeral_3_eq_3)
  qed
  then show ?thesis using assms bs
    by (simp add: transpose_mat_def transpose_axes_def ndim_def upt_rec numeral_3_eq_3)
qed

section \<open>Symmetric and skew-symmetric part\<close>

lemma valid_index_swap:
  "valid_index (bs @ [k, k]) idx \<Longrightarrow> valid_index (bs @ [k, k]) (swap_last2 idx)"
  by (auto simp: valid_index_append)

lemma swap_last2_twice:
  "valid_index (bs @ [r, c]) idx \<Longrightarrow> swap_last2 (swap_last2 idx) = idx"
  by (auto simp: valid_index_append)

lemma to_symmetric_tab:
  assumes "shape X = bs @ [k, k]" "length bs \<le> 1"
  shows "to_symmetric X =
    Inr (tabulate (bs @ [k, k]) (\<lambda>idx. 1 / 2 * (entry X idx + entry X (swap_last2 idx))))"
proof -
  let ?T = "tabulate (bs @ [k, k]) (\<lambda>idx. entry X (swap_last2 idx))"
  have t: "transpose_mat X = Inr ?T" using assms by (rule transpose_mat_tab)
  have "nd_add X ?T = Inr (tabulate (bs @ [k, k]) (\<lambda>idx. entry X idx + entry ?T idx))"
    using elementwise_same [of X ?T "(+)"] assms(1) by (simp add: nd_add_def)
  moreover have "nd_smul (1 / 2) (tabulate (bs @ [k, k]) (\<lambda>idx. entry X idx + entry ?T idx))
      = tabulate (bs @ [k, k]) (\<lambda>idx. 1 / 2 * (entry X idx + entry X (swap_last2 idx)))"
    unfolding nd_smul_def map_ndarray_tabulate
    by (rule tabulate_cong) (simp add: entry_tabulate)
  ultimately show ?thesis using t by (simp add: to_symmetric_def)
qed

lemma to_skew_symmetric_tab:
  assumes "shape X = bs @ [k, k]" "length bs \<le> 1"
  shows "to_skew_symmetric X =
    Inr (tabulate (bs @ [k, k]) (\<lambda>idx. 1 / 2 * (entry X idx - entry X (swap_last2 idx))))"
proof -
  let ?T = "tabulate (bs @ [k, k]) (\<lambda>idx. entry X (swap_last2 idx))"
  have t: "transpose_mat X = Inr ?T" using assms by (rule transpose_mat_tab)
  have "nd_sub X ?T = Inr (tabulate (bs @ [k, k]) (\<lambda>idx. entry X idx - entry ?T idx))"
    using elementwise_same [of X ?T "(-)"] assms(1) by (simp add: nd_sub_def)
  moreover have "nd_smul (1 / 2) (tabulate (bs @ [k, k]) (\<lambda>idx. entry X idx - entry ?T idx))
      = tabulate (bs @ [k, k]) (\<lambda>idx. 1 / 2 * (entry X idx - entry X (swap_last2 idx)))"
    unfolding nd_smul_def map_ndarray_tabulate
    by (rule tabulate_cong) (simp add: entry_tabulate)
  ultimately show ?thesis using t by (simp add: to_skew_symmetric_def)
qed

text \<open>
  Over exact real arithmetic: for a square matrix, or a batch of square matrices, the
  symmetric part and the skew-symmetric part exist and their sum is the matrix itself,
  entry by entry.
\<close>

theorem symmetric_plus_skew:
  assumes "wf_ndarray X" "shape X = bs @ [k, k]" "length bs \<le> 1"
  shows "\<exists>S K. to_symmetric X = Inr S \<and> to_skew_symmetric X = Inr K \<and> nd_add S K = Inr X"
proof -
  let ?S = "tabulate (bs @ [k, k]) (\<lambda>idx. 1 / 2 * (entry X idx + entry X (swap_last2 idx)))"
  let ?K = "tabulate (bs @ [k, k]) (\<lambda>idx. 1 / 2 * (entry X idx - entry X (swap_last2 idx)))"
  have "nd_add ?S ?K = Inr (tabulate (bs @ [k, k]) (\<lambda>idx. entry ?S idx + entry ?K idx))"
    using elementwise_same [of ?S ?K "(+)"] by (simp add: nd_add_def)
  moreover have "tabulate (bs @ [k, k]) (\<lambda>idx. entry ?S idx + entry ?K idx)
      = tabulate (bs @ [k, k]) (entry X)"
    by (rule tabulate_cong) (simp add: entry_tabulate add_divide_distrib diff_divide_distrib)
  moreover have "tabulate (bs @ [k, k]) (entry X) = X"
    using tabulate_entry [OF assms(1)] assms(2) by simp
  ultimately show ?thesis
    using to_symmetric_tab [OF assms(2,3)] to_skew_symmetric_tab [OF assms(2,3)] by simp
qed

theorem symmetric_plus_skew_witness:
  "wf_ndarray (NDArray [2, 2] [1, 2, 3, 4])
   \<and> (\<exists>S K. to_symmetric (NDArray [2, 2] [1, 2, 3, 4]) = Inr S
        \<and> to_skew_symmetric (NDArray [2, 2] [1, 2, 3, 4]) = Inr K
        \<and> nd_add S K = Inr (NDArray [2, 2] [1, 2, 3, 4]))"
  using symmetric_plus_skew [of "NDArray [2, 2] [1, 2, 3, 4]" "[]" 2]
  by (simp add: wf_ndarray_def)

section \<open>Symmetry tests\<close>

lemma indices_valid: "idx \<in> set (indices sh) \<Longrightarrow> valid_index sh idx"
  by (auto simp: indices_def valid_index_def unravel_valid)

lemma all_axes_True:
  assumes "\<forall>ax \<in> set axes. ax < length sh" "distinct axes"
  shows "all_axes (tabulate sh (\<lambda>_. True)) axes =
     Inr (tabulate (map ((!) sh) (filter (\<lambda>d. d \<notin> set axes) [0..<length sh])) (\<lambda>_. True))"
proof -
  have "list_all (entry (tabulate sh (\<lambda>_. True))) (filter P (indices sh))" for P
    by (auto simp: list_all_iff entry_tabulate indices_valid)
  moreover have "\<not> list_ex (\<lambda>ax. ax \<ge> length sh) axes"
    using assms(1) by (auto simp: list_ex_iff)
  ultimately show ?thesis using assms(2)
    by (simp add: all_axes_def ndim_def Let_def)
qed

lemma isclose_refl:
  assumes "0 \<le> atol"
  shows "isclose S S atol = Inr (tabulate (shape S) (\<lambda>_. True))"
proof -
  have "0 \<le> atol + rtol * \<bar>x\<bar>" for x :: real
    using assms by (simp add: rtol_def)
  moreover have "isclose S S atol =
      Inr (tabulate (shape S) (\<lambda>idx. \<bar>entry S idx - entry S idx\<bar> \<le> atol + rtol * \<bar>entry S idx\<bar>))"
    unfolding isclose_def by (rule elementwise_same) simp
  ultimately show ?thesis by simp
qed

lemma equal_mat_refl:
  assumes "shape S = bs @ [r, c]" "length bs \<le> 1" "0 \<le> atol"
  shows "equal_mat S S atol = Inr (NDArray bs (replicate (prod_list bs) True))"
proof (cases bs)
  case Nil
  have "all_axes (tabulate [r, c] (\<lambda>_. True)) [0, 1] = Inr (tabulate [] (\<lambda>_. True))"
    using all_axes_True [of "[0, 1]" "[r, c]"] by (simp add: upt_rec numeral_2_eq_2)
  then show ?thesis using assms Nil isclose_refl [OF assms(3), of S]
    by (simp add: equal_mat_def ndim_def tabulate_const)
next
  case (Cons k ks)
  then have bs: "bs = [k]" using assms by simp
  have "all_axes (tabulate [k, r, c] (\<lambda>_. True)) [1, 2] = Inr (tabulate [k] (\<lambda>_. True))"
    using all_axes_True [of "[1, 2]" "[k, r, c]"] by (simp add: upt_rec numeral_3_eq_3)
  then show ?thesis using assms bs isclose_refl [OF assms(3), of S]
    by (simp add: equal_mat_def ndim_def tabulate_const)
qed

lemma to_symmetric_transpose:
  assumes "shape X = bs @ [k, k]" "length bs \<le> 1" "to_symmetric X = Inr S"
  shows "transpose_mat S = Inr S"
proof -
  let ?F = "\<lambda>idx. 1 / 2 * (entry X idx + entry X (swap_last2 idx))"
  have S: "S = tabulate (bs @ [k, k]) ?F"
    using to_symmetric_tab [OF assms(1,2)] assms(3) by simp
  have "transpose_mat S = Inr (tabulate (bs @ [k, k]) (\<lambda>idx. entry S (swap_last2 idx)))"
    using transpose_mat_tab [of S bs k k] assms(2) S by simp
  moreover have "tabulate (bs @ [k, k]) (\<lambda>idx. entry S (swap_last2 idx)) = tabulate (bs @ [k, k]) ?F"
  proof (rule tabulate_cong)
    fix idx assume v: "valid_index (bs @ [k, k]) idx"
    then have "entry S (swap_last2 idx) = ?F (swap_last2 idx)"
      unfolding S by (intro entry_tabulate valid_index_swap)
    then show "entry S (swap_last2 idx) = ?F idx"
      using swap_last2_twice [OF v] by simp
  qed
  ultimately show ?thesis using S by simp
qed

lemma to_skew_symmetric_transpose:
  assumes "shape X = bs @ [k, k]" "length bs \<le> 1" "to_skew_symmetric X = Inr K"
  shows "\<exists>Kt. transpose_mat K = Inr Kt \<and> K = nd_neg Kt"
proof -
  let ?F = "\<lambda>idx. 1 / 2 * (entry X idx - entry X (swap_last2 idx))"
  have K: "K = tabulate (bs @ [k, k]) ?F"
    using to_skew_symmetric_tab [OF assms(1,2)] assms(3) by simp
  have t: "transpose_mat K = Inr (tabulate (bs @ [k, k]) (\<lambda>idx. entry K (swap_last2 idx)))"
    using transpose_mat_tab [of K bs k k] assms(2) K by simp
  have "tabulate (bs @ [k, k]) (\<lambda>idx. - entry K (swap_last2 idx)) = tabulate (bs @ [k, k]) ?F"
  proof (rule tabulate_cong)
    fix idx assume v: "valid_index (bs @ [k, k]) idx"
    then have "entry K (swap_last2 idx) = ?F (swap_last2 idx)"
      unfolding K by (intro entry_tabulate valid_index_swap)
    then show "- entry K (swap_last2 idx) = ?F idx"
      using swap_last2_twice [OF v] by simp
  qed
  then have "K = nd_neg (tabulate (bs @ [k, k]) (\<lambda>idx. entry K (swap_last2 idx)))"
    using K by (simp add: nd_neg_def map_ndarray_tabulate)
  then show ?thesis using t by simp
qed

text \<open>
  Claim C3.  For a square matrix, or a batch of square matrices, the symmetric part
  is its own transpose and \<open>is_symmetric\<close> answers true on it at the default
  tolerance (one answer for a single matrix, one per matrix of a batch); the
  skew-symmetric part is the negation of its own transpose and \<open>is_skew_symmetric\<close>
  answers true on it.
\<close>

theorem symmetric_part_is_symmetric:
  assumes "shape X = bs @ [k, k]" "length bs \<le> 1"
  shows "\<exists>S K Kt.
     to_symmetric X = Inr S \<and> transpose_mat S = Inr S
     \<and> is_symmetric S TOLERANCE = Inr (NDArray bs (replicate (prod_list bs) True))
     \<and> to_skew_symmetric X = Inr K \<and> transpose_mat K = Inr Kt \<and> K = nd_neg Kt
     \<and> is_skew_symmetric K TOLERANCE = Inr (NDArray bs (replicate (prod_list bs) True))"
proof -
  obtain S where S: "to_symmetric X = Inr S" and shS: "shape S = bs @ [k, k]"
    using to_symmetric_tab [OF assms] by simp
  obtain K where K: "to_skew_symmetric X = Inr K" and shK: "shape K = bs @ [k, k]"
    using to_skew_symmetric_tab [OF assms] by simp
  have tS: "transpose_mat S = Inr S" using assms S by (rule to_symmetric_transpose)
  obtain Kt where tK: "transpose_mat K = Inr Kt" and neg: "K = nd_neg Kt"
    using to_skew_symmetric_transpose [OF assms K] by blast
  have tol: "0 \<le> TOLERANCE" by (simp add: TOLERANCE_def)
  have "is_symmetric S TOLERANCE = Inr (NDArray bs (replicate (prod_list bs) True))"
    using tS equal_mat_refl [OF shS assms(2) tol] by (simp add: is_symmetric_def)
  moreover have "is_skew_symmetric K TOLERANCE = Inr (NDArray bs (replicate (prod_list bs) True))"
    using tK neg [symmetric] equal_mat_refl [OF shK assms(2) tol] by (simp add: is_skew_symmetric_def)
  ultimately show ?thesis using S K tS tK neg by blast
qed

theorem symmetric_part_is_symmetric_witness:
  "shape (NDArray [2, 3, 3] [1, 2, 3, 4, 5, 6, 7, 8, 9, 9, 8, 7, 6, 5, 4, 3, 2, 1 :: real]) = [2] @ [3, 3]
   \<and> length [2 :: nat] \<le> 1
   \<and> (\<exists>S K Kt.
     to_symmetric (NDArray [2, 3, 3] [1, 2, 3, 4, 5, 6, 7, 8, 9, 9, 8, 7, 6, 5, 4, 3, 2, 1]) = Inr S
     \<and> transpose_mat S = Inr S
     \<and> is_symmetric S TOLERANCE = Inr (NDArray [2] [True, True])
     \<and> to_skew_symmetric (NDArray [2, 3, 3] [1, 2, 3, 4, 5, 6, 7, 8, 9, 9, 8, 7, 6, 5, 4, 3, 2, 1]) = Inr K
     \<and> transpose_mat K = Inr Kt \<and> K = nd_neg Kt
     \<and> is_skew_symmetric K TOLERANCE = Inr (NDArray [2] [True, True]))"
  using symmetric_part_is_symmetric
    [of "NDArray [2, 3, 3] [1, 2, 3, 4, 5, 6, 7, 8, 9, 9, 8, 7, 6, 5, 4, 3, 2, 1]" "[2]" 3]
  by (simp add: numeral_2_eq_2)

section \<open>Products and the commutator\<close>

lemma shape_matrix_product [simp]: "shape (matrix_product bs r k c a b) = bs @ [r, c]"
  by (simp add: matrix_product_def)

lemma entry_matrix_product:
  assumes "valid_index bs bi" "i < r" "j < c"
  shows "entry (matrix_product bs r k c a b) (bi @ [i, j]) =
           (\<Sum>l\<leftarrow>[0..<k]. entry a (bi @ [i, l]) * entry b (bi @ [l, j]))"
  using assms by (simp add: matrix_product_def entry_tabulate butlast_append)

lemma matmul_tab:
  assumes "shape a = bs @ [r, k]" "shape b = bs @ [k, c]"
  shows "matmul a b = Inr (matrix_product bs r k c a b)"
proof -
  let ?G = "\<lambda>idx. let bi = take (length bs) idx; i = idx ! length bs; j = idx ! Suc (length bs)
                 in (\<Sum>l\<leftarrow>[0..<k]. entry a (broadcast_index bs bi @ [i, l])
                                   * entry b (broadcast_index bs bi @ [l, j]))"
  have "tabulate (bs @ [r, c]) ?G = matrix_product bs r k c a b"
    unfolding matrix_product_def
  proof (rule tabulate_cong)
    fix idx assume "valid_index (bs @ [r, c]) idx"
    then obtain bi i j where idx: "idx = bi @ [i, j]" and bi: "valid_index bs bi"
      by (auto simp: valid_index_append)
    have len: "length bi = length bs" using bi by (rule valid_index_length)
    show "?G idx = (\<Sum>l\<leftarrow>[0..<k]. entry a (butlast (butlast idx) @ [last (butlast idx), l])
                          * entry b (butlast (butlast idx) @ [l, last idx]))"
      using len broadcast_index_same [OF bi]
      by (simp add: idx Let_def butlast_append nth_append)
  qed
  moreover have "NDArray (bs @ [r, c]) (data (tabulate (bs @ [r, c]) ?G)) = tabulate (bs @ [r, c]) ?G"
    by (simp add: tabulate_def)
  ultimately have "NDArray (bs @ [r, c]) (data (tabulate (bs @ [r, c]) ?G)) = matrix_product bs r k c a b"
    by (simp only:)
  then show ?thesis using assms
    by (simp add: matmul_def ndim_def Let_def butlast_append)
qed

lemma mul_two [simp]: "mul [a, b] = matmul a b"
  by (simp add: mul_def)

lemma bracket_tab:
  assumes "shape a = bs @ [k, k]" "shape b = bs @ [k, k]"
  shows "bracket a b = Inr (tabulate (bs @ [k, k])
           (\<lambda>idx. entry (matrix_product bs k k k a b) idx - entry (matrix_product bs k k k b a) idx))"
  using assms elementwise_same [of "matrix_product bs k k k a b" "matrix_product bs k k k b a" "(-)"]
  by (simp add: bracket_def matmul_tab nd_sub_def)

text \<open>
  Over exact real arithmetic: for square matrices \<open>a\<close> and \<open>b\<close> of one shape,
  \<open>bracket(a, b)\<close> is the negation of \<open>bracket(b, a)\<close>, and \<open>bracket(a, a)\<close> is the zero
  matrix.
\<close>

theorem bracket_antisymmetric:
  assumes "shape a = bs @ [k, k]" "shape b = shape a"
  shows "\<exists>c d. bracket a b = Inr c \<and> bracket b a = Inr d \<and> c = nd_neg d
           \<and> bracket a a = Inr (zeros (shape a))"
proof -
  have b: "shape b = bs @ [k, k]" using assms by simp
  have "bracket a a = Inr (zeros (shape a))"
    using bracket_tab [OF assms(1) assms(1)] assms(1) by (simp add: tabulate_const zeros_def)
  moreover have "tabulate (bs @ [k, k])
           (\<lambda>idx. entry (matrix_product bs k k k a b) idx - entry (matrix_product bs k k k b a) idx)
     = nd_neg (tabulate (bs @ [k, k])
           (\<lambda>idx. entry (matrix_product bs k k k b a) idx - entry (matrix_product bs k k k a b) idx))"
    by (simp add: nd_neg_def map_ndarray_tabulate)
  ultimately show ?thesis
    using bracket_tab [OF assms(1) b] bracket_tab [OF b assms(1)] by simp
qed

theorem bracket_antisymmetric_witness:
  "shape (NDArray [2, 2] [1, 2, 3, 4 :: real]) = [] @ [2, 2]
   \<and> shape (NDArray [2, 2] [0, 1, -1, 0 :: real]) = shape (NDArray [2, 2] [1, 2, 3, 4 :: real])
   \<and> (\<exists>c d. bracket (NDArray [2, 2] [1, 2, 3, 4]) (NDArray [2, 2] [0, 1, -1, 0]) = Inr c
         \<and> bracket (NDArray [2, 2] [0, 1, -1, 0]) (NDArray [2, 2] [1, 2, 3, 4]) = Inr d
         \<and> c = nd_neg d
         \<and> bracket (NDArray [2, 2] [1, 2, 3, 4]) (NDArray [2, 2] [1, 2, 3, 4]) = Inr (NDArray [2, 2] [0, 0, 0, 0]))"
  using bracket_antisymmetric [of "NDArray [2, 2] [1, 2, 3, 4]" "[]" 2 "NDArray [2, 2] [0, 1, -1, 0]"]
  by (simp add: zeros_def numeral_eq_Suc)

section \<open>Chained products\<close>

lemma shape_split_last2:
  assumes "2 \<le> ndim a"
  shows "shape a = batch_shape a @ [mat_rows a, mat_cols a]"
proof -
  obtain xs y where xs: "shape a = xs @ [y]"
    using assms by (cases "shape a" rule: rev_cases) (auto simp: ndim_def)
  then obtain ys x where "xs = ys @ [x]"
    using assms by (cases xs rule: rev_cases) (auto simp: ndim_def)
  then show ?thesis using xs by (simp add: batch_shape_def mat_rows_def mat_cols_def butlast_append)
qed

lemma matmul_product2:
  assumes "2 \<le> ndim a" "2 \<le> ndim b" "batch_shape b = batch_shape a" "mat_rows b = mat_cols a"
  shows "matmul a b = Inr (product2 a b)"
proof -
  have "shape b = batch_shape a @ [mat_cols a, mat_cols b]"
    using shape_split_last2 [OF assms(2)] assms(3,4) by simp
  then show ?thesis
    using matmul_tab [OF shape_split_last2 [OF assms(1)]] by (simp add: product2_def)
qed

lemma foldl_matmul_chain:
  "chain_compatible acc as \<Longrightarrow>
     foldl (\<lambda>acc y. bind_result acc (\<lambda>v. matmul v y)) (Inr acc) as = Inr (chain_product acc as)"
  by (induction as arbitrary: acc) (simp_all add: matmul_product2)

lemma mul_snoc:
  "xs \<noteq> [] \<Longrightarrow> mul (xs @ [y]) = bind_result (mul xs) (\<lambda>p. matmul p y)"
  by (cases xs) (simp_all add: mul_def)

text \<open>
  Claim C7.  \<open>mul\<close> called with no argument fails (the \<open>TypeError\<close> of \<open>reduce\<close> on an
  empty sequence); with one argument it returns that argument unchanged; with two or
  more compatible operands it returns the chained product taken from the left, each
  further operand multiplying the product so far on the right.
\<close>

theorem mul_chain:
  "mul [] = Inl TypeError
   \<and> mul [a] = Inr a
   \<and> (chain_compatible a1 (a2 # as) \<longrightarrow> mul (a1 # a2 # as) = Inr (chain_product a1 (a2 # as)))
   \<and> (xs \<noteq> [] \<longrightarrow> mul (xs @ [y]) = bind_result (mul xs) (\<lambda>p. matmul p y))"
  using foldl_matmul_chain [of a1 "a2 # as"] mul_snoc [of xs y] by (simp add: mul_def)


theorem mul_chain_witness:
  "chain_compatible (NDArray [2, 2] [1, 2, 3, 4])
      [NDArray [2, 3] [1, 0, 1, 0, 1, 0], NDArray [3, 1] [1, 1, 1]]
   \<and> mul [NDArray [2, 2] [1, 2, 3, 4], NDArray [2, 3] [1, 0, 1, 0, 1, 0], NDArray [3, 1] [1, 1, 1]]
       = Inr (chain_product (NDArray [2, 2] [1, 2, 3, 4])
               [NDArray [2, 3] [1, 0, 1, 0, 1, 0], NDArray [3, 1] [1, 1, 1]])
   \<and> [NDArray [2, 2] [1, 2, 3, 4 :: real]] \<noteq> []
   \<and> mul ([NDArray [2, 2] [1, 2, 3, 4]] @ [NDArray [2, 3] [1, 0, 1, 0, 1, 0]])
       = bind_result (mul [NDArray [2, 2] [1, 2, 3, 4]])
           (\<lambda>p. matmul p (NDArray [2, 3] [1, 0, 1, 0, 1, 0]))"
proof -
  have h1: "chain_compatible (NDArray [2, 2] [1, 2, 3, 4])
      [NDArray [2, 3] [1, 0, 1, 0, 1, 0], NDArray [3, 1] [1, 1, 1]]"
    by (simp add: product2_def batch_shape_def mat_rows_def mat_cols_def ndim_def)
  have h2: "[NDArray [2, 2] [1, 2, 3, 4 :: real]] \<noteq> []" by simp
  show ?thesis
    using h1 h2 mul_chain [of "NDArray [2, 2] [1, 2, 3, 4]" "NDArray [2, 2] [1, 2, 3, 4]"
      "NDArray [2, 3] [1, 0, 1, 0, 1, 0]" "[NDArray [3, 1] [1, 1, 1]]"
      "[NDArray [2, 2] [1, 2, 3, 4]]" "NDArray [2, 3] [1, 0, 1, 0, 1, 0]"]
    by blast
qed

section \<open>The congruence action\<close>

lemma mul_three: "mul [a, b, c] = bind_result (matmul a b) (\<lambda>p. matmul p c)"
  by (simp add: mul_def)

lemma congruent_tab:
  assumes "shape A = bs @ [k, k]" "shape B = bs @ [k, k]" "length bs \<le> 1"
  shows "congruent_mat A B =
     Inr (matrix_product bs k k k (matrix_product bs k k k B A)
            (tabulate (bs @ [k, k]) (\<lambda>idx. entry B (swap_last2 idx))))"
proof -
  let ?Bt = "tabulate (bs @ [k, k]) (\<lambda>idx. entry B (swap_last2 idx))"
  have "transpose_mat B = Inr ?Bt" using assms(2,3) by (rule transpose_mat_tab)
  moreover have "matmul B A = Inr (matrix_product bs k k k B A)"
    using assms(2,1) by (rule matmul_tab)
  moreover have "matmul (matrix_product bs k k k B A) ?Bt
      = Inr (matrix_product bs k k k (matrix_product bs k k k B A) ?Bt)"
    by (rule matmul_tab) simp_all
  ultimately show ?thesis by (simp add: congruent_mat_def mul_three)
qed

lemma entry_congruent:
  assumes "valid_index bs bi" "i < k" "j < k"
  shows "entry (matrix_product bs k k k (matrix_product bs k k k B A)
            (tabulate (bs @ [k, k]) (\<lambda>idx. entry B (swap_last2 idx)))) (bi @ [i, j])
       = (\<Sum>l = 0..<k. (\<Sum>q = 0..<k. entry B (bi @ [i, q]) * entry A (bi @ [q, l]))
                          * entry B (bi @ [j, l]))"
proof -
  have "entry (matrix_product bs k k k B A) (bi @ [i, l])
          * entry (tabulate (bs @ [k, k]) (\<lambda>idx. entry B (swap_last2 idx))) (bi @ [l, j])
      = (\<Sum>q = 0..<k. entry B (bi @ [i, q]) * entry A (bi @ [q, l])) * entry B (bi @ [j, l])"
    if "l \<in> {0..<k}" for l
    using that assms
    by (simp add: entry_matrix_product entry_tabulate interv_sum_list_conv_sum_set_nat)
  then show ?thesis
    using assms
    by (simp add: entry_matrix_product [where a = "matrix_product bs k k k B A"]
          interv_sum_list_conv_sum_set_nat)
qed

lemma triple_sum_symmetric:
  fixes a b :: "nat \<Rightarrow> nat \<Rightarrow> real"
  assumes "\<And>p q. p < k \<Longrightarrow> q < k \<Longrightarrow> a p q = a q p"
  shows "(\<Sum>l = 0..<k. (\<Sum>q = 0..<k. b j q * a q l) * b i l)
       = (\<Sum>l = 0..<k. (\<Sum>q = 0..<k. b i q * a q l) * b j l)"
proof -
  have "(\<Sum>l = 0..<k. (\<Sum>q = 0..<k. b j q * a q l) * b i l)
      = (\<Sum>l = 0..<k. \<Sum>q = 0..<k. b j q * a q l * b i l)"
    by (simp add: sum_distrib_right)
  also have "\<dots> = (\<Sum>q = 0..<k. \<Sum>l = 0..<k. b j q * a q l * b i l)"
    by (rule sum.swap)
  also have "\<dots> = (\<Sum>q = 0..<k. \<Sum>l = 0..<k. b i l * a l q * b j q)"
    by (intro sum.cong refl) (simp add: assms mult_ac)
  also have "\<dots> = (\<Sum>q = 0..<k. (\<Sum>l = 0..<k. b i l * a l q) * b j q)"
    by (simp add: sum_distrib_right)
  finally show ?thesis .
qed

lemma transpose_fixed_entries:
  assumes "shape A = bs @ [k, k]" "length bs \<le> 1" "transpose_mat A = Inr A"
    and "valid_index bs bi" "p < k" "q < k"
  shows "entry A (bi @ [p, q]) = entry A (bi @ [q, p])"
proof -
  have "A = tabulate (bs @ [k, k]) (\<lambda>idx. entry A (swap_last2 idx))"
    using transpose_mat_tab [OF assms(1,2)] assms(3) by simp
  then have "entry A (bi @ [p, q])
      = entry (tabulate (bs @ [k, k]) (\<lambda>idx. entry A (swap_last2 idx))) (bi @ [p, q])"
    by simp
  also have "\<dots> = entry A (bi @ [q, p])"
    using assms(4-6) by (simp add: entry_tabulate)
  finally show ?thesis .
qed

lemma congruent_symmetric:
  assumes "shape A = bs @ [k, k]" "shape B = bs @ [k, k]" "length bs \<le> 1"
    and "transpose_mat A = Inr A" "congruent_mat A B = Inr C"
  shows "transpose_mat C = Inr C"
proof -
  let ?C = "matrix_product bs k k k (matrix_product bs k k k B A)
              (tabulate (bs @ [k, k]) (\<lambda>idx. entry B (swap_last2 idx)))"
  have C: "C = ?C" using congruent_tab [OF assms(1-3)] assms(5) by simp
  have "tabulate (bs @ [k, k]) (\<lambda>idx. entry ?C (swap_last2 idx)) = tabulate (bs @ [k, k]) (entry ?C)"
  proof (rule tabulate_cong)
    fix idx assume "valid_index (bs @ [k, k]) idx"
    then obtain bi i j where idx: "idx = bi @ [i, j]" and v: "valid_index bs bi" "i < k" "j < k"
      by (auto simp: valid_index_append)
    have "entry ?C (bi @ [j, i]) = entry ?C (bi @ [i, j])"
      unfolding entry_congruent [OF v(1,3,2)] entry_congruent [OF v(1,2,3)]
      by (rule triple_sum_symmetric) (rule transpose_fixed_entries [OF assms(1,3,4) v(1)])
    then show "entry ?C (swap_last2 idx) = entry ?C idx" by (simp add: idx)
  qed
  moreover have "tabulate (bs @ [k, k]) (entry ?C) = ?C"
    using tabulate_entry [of ?C] by (simp add: matrix_product_def)
  moreover have "transpose_mat ?C = Inr (tabulate (bs @ [k, k]) (\<lambda>idx. entry ?C (swap_last2 idx)))"
    using transpose_mat_tab [of ?C bs k k] assms(3) by simp
  ultimately show ?thesis by (simp add: C)
qed

text \<open>
  Over exact real arithmetic: for square matrices \<open>mat_1\<close> and \<open>mat_2\<close> of one shape,
  \<open>congruent(mat_1, mat_2)\<close> is the product \<open>mat_2 \<cdot> mat_1 \<cdot> transpose(mat_2)\<close>, and when
  \<open>mat_1\<close> is symmetric so is the result.
\<close>

theorem congruent_product_symmetric:
  assumes "shape A = bs @ [k, k]" "shape B = shape A" "length bs \<le> 1"
  shows "\<exists>Bt P C.
     transpose_mat B = Inr Bt \<and> matmul B A = Inr P \<and> matmul P Bt = Inr C
     \<and> congruent_mat A B = Inr C
     \<and> P = matrix_product bs k k k B A \<and> C = matrix_product bs k k k P Bt
     \<and> (transpose_mat A = Inr A \<longrightarrow>
          transpose_mat C = Inr C
          \<and> is_symmetric C TOLERANCE = Inr (NDArray bs (replicate (prod_list bs) True)))"
proof -
  let ?Bt = "tabulate (bs @ [k, k]) (\<lambda>idx. entry B (swap_last2 idx))"
  let ?P = "matrix_product bs k k k B A"
  let ?C = "matrix_product bs k k k ?P ?Bt"
  have B: "shape B = bs @ [k, k]" using assms by simp
  have t: "transpose_mat B = Inr ?Bt" using B assms(3) by (rule transpose_mat_tab)
  have p: "matmul B A = Inr ?P" using B assms(1) by (rule matmul_tab)
  have c: "matmul ?P ?Bt = Inr ?C" by (rule matmul_tab) simp_all
  have g: "congruent_mat A B = Inr ?C" using assms(1) B assms(3) by (rule congruent_tab)
  have "transpose_mat ?C = Inr ?C
        \<and> is_symmetric ?C TOLERANCE = Inr (NDArray bs (replicate (prod_list bs) True))"
    if sym: "transpose_mat A = Inr A"
  proof -
    have tC: "transpose_mat ?C = Inr ?C"
      using assms(1) B assms(3) sym g by (rule congruent_symmetric)
    have "equal_mat ?C ?C TOLERANCE = Inr (NDArray bs (replicate (prod_list bs) True))"
      by (rule equal_mat_refl [OF _ assms(3)]) (simp_all add: TOLERANCE_def)
    then show ?thesis using tC by (simp add: is_symmetric_def)
  qed
  then show ?thesis using t p c g by blast
qed

theorem congruent_product_symmetric_witness:
  "shape (NDArray [2, 2] [2, 1, 1, 3 :: real]) = [] @ [2, 2]
   \<and> shape (NDArray [2, 2] [1, 2, 3, 4 :: real]) = shape (NDArray [2, 2] [2, 1, 1, 3 :: real])
   \<and> length ([] :: nat list) \<le> 1
   \<and> transpose_mat (NDArray [2, 2] [2, 1, 1, 3 :: real]) = Inr (NDArray [2, 2] [2, 1, 1, 3])
   \<and> (\<exists>C. congruent_mat (NDArray [2, 2] [2, 1, 1, 3]) (NDArray [2, 2] [1, 2, 3, 4]) = Inr C
        \<and> transpose_mat C = Inr C
        \<and> is_symmetric C TOLERANCE = Inr (NDArray [] [True]))"
proof -
  have h: "transpose_mat (NDArray [2, 2] [2, 1, 1, 3 :: real]) = Inr (NDArray [2, 2] [2, 1, 1, 3])"
    by code_simp
  show ?thesis
    using h congruent_product_symmetric
      [of "NDArray [2, 2] [2, 1, 1, 3]" "[]" 2 "NDArray [2, 2] [1, 2, 3, 4]"]
    by auto
qed

section \<open>The Frobenius inner product\<close>

lemma tabulate_scalar: "tabulate [] f = NDArray [] [f []]"
  by (simp add: tabulate_def)

lemma einsum_matrix:
  assumes "shape a = [r, c]" "shape b = [r, c]"
  shows "einsum_ij_ij a b =
     Inr (NDArray [] [\<Sum>i\<leftarrow>[0..<r]. \<Sum>j\<leftarrow>[0..<c]. entry a [i, j] * entry b [i, j]])"
  using assms
  by (simp add: einsum_ij_ij_def ndim_def Let_def tabulate_scalar broadcast_index_def)

lemma entry_matrix_flat: "shape a = [r, c] \<Longrightarrow> entry a [i, j] = data a ! (i * c + j)"
  by (simp add: entry_def)

lemma sum_list_rows:
  fixes f :: "nat \<Rightarrow> real"
  shows "(\<Sum>i\<leftarrow>[0..<r]. \<Sum>j\<leftarrow>[0..<c]. f (i * c + j)) = (\<Sum>q\<leftarrow>[0..<r * c]. f q)"
proof (induction r)
  case 0
  then show ?case by simp
next
  case (Suc r)
  have "[0..<Suc r * c] = [0..<r * c] @ map (\<lambda>j. r * c + j) [0..<c]"
    using upt_add_eq_append [of 0 "r * c" c] map_add_upt [of "r * c" c]
    by (simp add: add.commute)
  then have "(\<Sum>q\<leftarrow>[0..<Suc r * c]. f q)
      = (\<Sum>q\<leftarrow>[0..<r * c]. f q) + (\<Sum>j\<leftarrow>[0..<c]. f (r * c + j))"
    by (simp add: comp_def)
  then show ?case using Suc.IH by simp
qed

lemma sum_list_nth_map2:
  fixes xs ys :: "real list"
  assumes "length xs = k" "length ys = k"
  shows "(\<Sum>q\<leftarrow>[0..<k]. xs ! q * ys ! q) = sum_list (map2 (*) xs ys)"
proof -
  have "map (\<lambda>q. xs ! q * ys ! q) [0..<k] = map2 (*) xs ys"
    using assms by (intro nth_equalityI) simp_all
  then show ?thesis by simp
qed

lemma inner_product_flat:
  assumes "wf_ndarray a" "wf_ndarray b" "shape a = [r, c]" "shape b = [r, c]"
  shows "inner_product g a b bp = Inr (NDArray [] [sum_list (map2 (*) (data a) (data b))])"
proof -
  have "(\<Sum>i\<leftarrow>[0..<r]. \<Sum>j\<leftarrow>[0..<c]. entry a [i, j] * entry b [i, j])
      = (\<Sum>i\<leftarrow>[0..<r]. \<Sum>j\<leftarrow>[0..<c]. data a ! (i * c + j) * data b ! (i * c + j))"
    using assms(3,4) by (simp add: entry_matrix_flat)
  also have "\<dots> = (\<Sum>q\<leftarrow>[0..<r * c]. data a ! q * data b ! q)"
    by (rule sum_list_rows)
  also have "\<dots> = sum_list (map2 (*) (data a) (data b))"
    using assms by (intro sum_list_nth_map2) (simp_all add: wf_ndarray_def)
  finally show ?thesis
    using einsum_matrix [OF assms(3,4)] by (simp add: inner_product_def)
qed

lemma map2_mult_commute: "map2 (*) xs ys = map2 (*) ys (xs :: real list)"
  by (induction xs ys rule: list_induct2') (simp_all add: mult.commute)

lemma map2_self: "map2 f xs xs = map (\<lambda>x. f x x) xs"
  by (induction xs) simp_all

lemma sum_squares:
  fixes xs :: "real list"
  shows "0 \<le> sum_list (map2 (*) xs xs)"
    and "sum_list (map2 (*) xs xs) = 0 \<longleftrightarrow> xs = replicate (length xs) 0"
proof -
  have nn: "\<And>x. x \<in> set (map (\<lambda>x. x * x) xs) \<Longrightarrow> 0 \<le> x" by auto
  show "0 \<le> sum_list (map2 (*) xs xs)"
    unfolding map2_self using nn by (rule sum_list_nonneg)
  have "sum_list (map (\<lambda>x. x * x) xs) = 0 \<longleftrightarrow> (\<forall>x \<in> set (map (\<lambda>x. x * x) xs). x = 0)"
    using nn by (intro sum_list_nonneg_eq_0_iff) blast
  also have "\<dots> \<longleftrightarrow> (\<forall>x \<in> set xs. x = 0)" by simp
  also have "\<dots> \<longleftrightarrow> xs = replicate (length xs) 0"
    by (induction xs) auto
  finally show "sum_list (map2 (*) xs xs) = 0 \<longleftrightarrow> xs = replicate (length xs) 0"
    by (simp add: map2_self)
qed

text \<open>
  Over exact real arithmetic: for tangent vectors \<open>a\<close> and \<open>b\<close> of shape \<open>(r, c)\<close> the
  inner product is the sum, over all entries, of the products of corresponding
  entries; it is symmetric; and the inner product of \<open>a\<close> with itself is nonnegative,
  and zero exactly when \<open>a\<close> is the zero matrix.
\<close>

theorem inner_product_frobenius:
  assumes "wf_ndarray a" "wf_ndarray b" "shape a = [r, c]" "shape b = [r, c]"
  shows "inner_product g a b bp = Inr (NDArray [] [sum_list (map2 (*) (data a) (data b))])
     \<and> inner_product g a b bp = inner_product g b a bp
     \<and> (\<exists>s. inner_product g a a bp = Inr (NDArray [] [s]) \<and> 0 \<le> s
            \<and> (s = 0 \<longleftrightarrow> a = zeros [r, c]))"
proof -
  have ab: "inner_product g a b bp = Inr (NDArray [] [sum_list (map2 (*) (data a) (data b))])"
    using assms by (rule inner_product_flat)
  have ba: "inner_product g b a bp = Inr (NDArray [] [sum_list (map2 (*) (data b) (data a))])"
    using assms(2,1,4,3) by (rule inner_product_flat)
  have aa: "inner_product g a a bp = Inr (NDArray [] [sum_list (map2 (*) (data a) (data a))])"
    using assms(1,1,3,3) by (rule inner_product_flat)
  have len: "length (data a) = r * c" using assms(1,3) by (simp add: wf_ndarray_def)
  have "a = zeros [r, c] \<longleftrightarrow> data a = replicate (length (data a)) 0"
    using assms(3) len by (cases a) (simp add: zeros_def)
  then have "sum_list (map2 (*) (data a) (data a)) = 0 \<longleftrightarrow> a = zeros [r, c]"
    using sum_squares(2) [of "data a"] by simp
  then show ?thesis
    using ab ba aa sum_squares(1) [of "data a"] map2_mult_commute [of "data a" "data b"]
    by simp
qed

theorem inner_product_frobenius_witness:
  "wf_ndarray (NDArray [2, 2] [1, 0, 0, 1 :: real])
   \<and> wf_ndarray (NDArray [2, 2] [0, 1, -1, 0 :: real])
   \<and> inner_product (MatricesMetric_init 2 2) (NDArray [2, 2] [1, 0, 0, 1]) (NDArray [2, 2] [0, 1, -1, 0]) None
        = Inr (NDArray [] [0])
   \<and> inner_product (MatricesMetric_init 2 2) (NDArray [2, 2] [1, 0, 0, 1]) (NDArray [2, 2] [0, 1, -1, 0]) None
        = inner_product (MatricesMetric_init 2 2) (NDArray [2, 2] [0, 1, -1, 0]) (NDArray [2, 2] [1, 0, 0, 1]) None
   \<and> inner_product (MatricesMetric_init 2 2) (NDArray [2, 2] [1, 0, 0, 1]) (NDArray [2, 2] [1, 0, 0, 1]) None
        = Inr (NDArray [] [2])"
proof -
  have h: "wf_ndarray (NDArray [2, 2] [1, 0, 0, 1 :: real])"
    "wf_ndarray (NDArray [2, 2] [0, 1, -1, 0 :: real])"
    by (simp_all add: wf_ndarray_def)
  show ?thesis
    using h inner_product_frobenius [OF h, of 2 2 "MatricesMetric_init 2 2" None]
      inner_product_frobenius [OF h(1) h(1), of 2 2 "MatricesMetric_init 2 2" None]
    by auto
qed

section \<open>Uniform sampling\<close>

lemma Matrices_init_Inr:
  assumes "Matrices_init m0 n0 = Inr sp"
  shows "0 < m sp \<and> 0 < n sp \<and> m0 = PyInt (m sp) \<and> n0 = PyInt (n sp)
         \<and> Matrices.dim sp = m sp * n sp"
proof -
  have pos: "is_positive_integer m0 \<and> is_positive_integer n0"
    using Matrices_init_rejects [of m0 n0] assms by auto
  then obtain a b where ab: "m0 = PyInt a" "n0 = PyInt b" "0 < a" "0 < b"
    by (cases m0; cases n0) auto
  then show ?thesis using Matrices_init_accepts [of a b] assms by auto
qed

lemma random_uniform_value:
  assumes "0 \<le> m sp" "0 \<le> n sp" "0 \<le> ns"
  shows "random_uniform sp ns bound g =
    (let sh = (if ns \<noteq> 1 then [nat ns, nat (m sp), nat (n sp)] else [nat (m sp), nat (n sp)])
     in Inr (NDArray sh (map (\<lambda>q. bound * (stream g (pos g + q) - 1 / 2)) [0..<prod_list sh]),
             g\<lparr>pos := pos g + prod_list sh\<rparr>))"
  using assms by (simp add: random_uniform_def rand_def Let_def nd_smul_def comp_def)

lemma random_uniform_negative:
  assumes "ns < 0"
  shows "random_uniform sp ns bound g = Inl ValueError"
  using assms by (simp add: random_uniform_def rand_def Let_def)

lemma scaled_draw_range:
  fixes bound u :: real
  assumes "0 < bound" "0 \<le> u" "u < 1"
  shows "- (bound / 2) \<le> bound * (u - 1 / 2) \<and> bound * (u - 1 / 2) < bound / 2"
proof -
  have lo: "0 \<le> bound * u" using assms by simp
  have "bound * u < bound * 1" using assms by (intro mult_strict_left_mono)
  then have hi: "bound * u < bound" by simp
  have "bound * (u - 1 / 2) = bound * u - bound / 2" by (simp add: right_diff_distrib)
  then show ?thesis using lo hi by linarith
qed

lemma random_uniform_range:
  assumes "0 \<le> m sp" "0 \<le> n sp" "0 \<le> ns" "0 < bound"
    and "\<forall>q. 0 \<le> stream g q \<and> stream g q < 1"
  shows "\<exists>X g'. random_uniform sp ns bound g = Inr (X, g')
     \<and> shape X = (if ns = 1 then [nat (m sp), nat (n sp)] else [nat ns, nat (m sp), nat (n sp)])
     \<and> wf_ndarray X
     \<and> (\<forall>x \<in> set (data X). - (bound / 2) \<le> x \<and> x < bound / 2)"
  using random_uniform_value [OF assms(1-3), of bound g] scaled_draw_range [OF assms(4)] assms(5)
  by (auto simp: Let_def wf_ndarray_def)

text \<open>
  Over exact real arithmetic: for a constructed space and a positive bound, with
  draws in \<open>[0, 1)\<close>, the shapes are \<open>(m, n)\<close> for one sample and \<open>(5, m, n)\<close> for five, and
  each entry lies in \<open>[-bound/2, bound/2)\<close>.
\<close>

theorem random_uniform_shape_and_range:
  assumes "Matrices_init m0 n0 = Inr sp" "0 < bound"
    and "\<forall>q. 0 \<le> stream g q \<and> stream g q < 1"
  shows "(\<exists>X g'. random_uniform sp 1 bound g = Inr (X, g')
            \<and> shape X = [nat (m sp), nat (n sp)] \<and> wf_ndarray X
            \<and> (\<forall>x \<in> set (data X). - (bound / 2) \<le> x \<and> x < bound / 2))
       \<and> (\<exists>X g'. random_uniform sp 5 bound g = Inr (X, g')
            \<and> shape X = [5, nat (m sp), nat (n sp)] \<and> wf_ndarray X
            \<and> (\<forall>x \<in> set (data X). - (bound / 2) \<le> x \<and> x < bound / 2))
       \<and> (0 \<le> ns \<longrightarrow>
            (\<exists>X g'. random_uniform sp ns bound g = Inr (X, g') \<and> wf_ndarray X
               \<and> (\<forall>x \<in> set (data X). - (bound / 2) \<le> x \<and> x < bound / 2)))"
proof -
  have mn: "0 \<le> m sp" "0 \<le> n sp" using Matrices_init_Inr [OF assms(1)] by simp_all
  show ?thesis
    using random_uniform_range [OF mn _ assms(2,3), of 1]
      random_uniform_range [OF mn _ assms(2,3), of 5]
      random_uniform_range [OF mn _ assms(2,3), of ns]
    by (simp del: split_paired_Ex) blast
qed

theorem random_uniform_shape_and_range_witness:
  "Matrices_init (PyInt 2) (PyInt 3) =
      Inr \<lparr>dim = 6, m = 2, n = 3, default_point_type = ''matrix'',
           metric = \<lparr>metric_dim = 6, signature = (6, 0, 0)\<rparr>\<rparr>
   \<and> (\<forall>q. 0 \<le> 1 / (real q + 2) \<and> 1 / (real q + 2) < 1)
   \<and> (\<exists>X g'. random_uniform
          \<lparr>dim = 6, m = 2, n = 3, default_point_type = ''matrix'',
           metric = \<lparr>metric_dim = 6, signature = (6, 0, 0)\<rparr>\<rparr>
          1 4 \<lparr>stream = (\<lambda>q. 1 / (real q + 2)), pos = 0\<rparr> = Inr (X, g')
        \<and> shape X = [2, 3] \<and> list_all (\<lambda>x. - 2 \<le> x \<and> x < 2) (data X))
   \<and> (\<exists>X g'. random_uniform
          \<lparr>dim = 6, m = 2, n = 3, default_point_type = ''matrix'',
           metric = \<lparr>metric_dim = 6, signature = (6, 0, 0)\<rparr>\<rparr>
          5 4 \<lparr>stream = (\<lambda>q. 1 / (real q + 2)), pos = 0\<rparr> = Inr (X, g')
        \<and> shape X = [5, 2, 3] \<and> list_all (\<lambda>x. - 2 \<le> x \<and> x < 2) (data X))"
proof -
  let ?sp = "\<lparr>dim = 6, m = 2, n = 3, default_point_type = ''matrix'',
           metric = \<lparr>metric_dim = 6, signature = (6, 0, 0)\<rparr>\<rparr>"
  let ?g = "\<lparr>stream = (\<lambda>q. 1 / (real q + 2)), pos = 0\<rparr>"
  have h1: "Matrices_init (PyInt 2) (PyInt 3) = Inr ?sp"
    by (simp add: Matrices_init_def Manifold_init_def MatricesMetric_init_def Let_def)
  have h2: "(0::real) < 4" by simp
  have h3: "\<forall>q. 0 \<le> stream ?g q \<and> stream ?g q < 1" by simp
  show ?thesis
    using h1 h3 random_uniform_shape_and_range [OF h1 h2 h3, of 0]
    by (simp add: list_all_iff del: split_paired_Ex) blast
qed

text \<open>
  Claim C10.  For a constructed space and any bound, \<open>random_uniform\<close> with
  \<open>n_samples = 0\<close> returns the empty batch of shape \<open>(0, m, n)\<close> and consumes no draw;
  the result has the shape \<open>(m, n)\<close> of a single matrix exactly when \<open>n_samples = 1\<close>,
  and every other nonnegative number of samples keeps its batch axis.
\<close>

theorem random_uniform_squeeze:
  assumes "Matrices_init m0 n0 = Inr sp"
  shows "random_uniform sp 0 bound g = Inr (NDArray [0, nat (m sp), nat (n sp)] [], g)
       \<and> ((\<exists>X g'. random_uniform sp ns bound g = Inr (X, g') \<and> shape X = [nat (m sp), nat (n sp)])
            \<longleftrightarrow> ns = 1)
       \<and> (0 \<le> ns \<and> ns \<noteq> 1 \<longrightarrow>
            (\<exists>X g'. random_uniform sp ns bound g = Inr (X, g')
               \<and> shape X = [nat ns, nat (m sp), nat (n sp)]))"
proof -
  have mn: "0 \<le> m sp" "0 \<le> n sp" using Matrices_init_Inr [OF assms(1)] by simp_all
  have zero: "random_uniform sp 0 bound g = Inr (NDArray [0, nat (m sp), nat (n sp)] [], g)"
    using random_uniform_value [OF mn, of 0 bound g] by simp
  have one: "\<exists>X g'. random_uniform sp 1 bound g = Inr (X, g') \<and> shape X = [nat (m sp), nat (n sp)]"
    using random_uniform_value [OF mn, of 1 bound g] by (simp add: Let_def)
  have other: "\<exists>X g'. random_uniform sp ns bound g = Inr (X, g')
               \<and> shape X = [nat ns, nat (m sp), nat (n sp)]" if "0 \<le> ns" "ns \<noteq> 1"
    using random_uniform_value [OF mn that(1), of bound g] that(2) by (simp add: Let_def)
  have "ns = 1" if "random_uniform sp ns bound g = Inr (X, g')" "shape X = [nat (m sp), nat (n sp)]"
    for X g'
  proof (cases "ns < 0")
    case True
    then show ?thesis using random_uniform_negative [OF True, of sp bound g] that by simp
  next
    case False
    then have "0 \<le> ns" by simp
    then show ?thesis using random_uniform_value [OF mn, of ns bound g] that
      by (auto simp: Let_def split: if_splits)
  qed
  then show ?thesis using zero one other by blast
qed

theorem random_uniform_squeeze_witness:
  "Matrices_init (PyInt 2) (PyInt 3) =
      Inr \<lparr>dim = 6, m = 2, n = 3, default_point_type = ''matrix'',
           metric = \<lparr>metric_dim = 6, signature = (6, 0, 0)\<rparr>\<rparr>
   \<and> random_uniform
          \<lparr>dim = 6, m = 2, n = 3, default_point_type = ''matrix'',
           metric = \<lparr>metric_dim = 6, signature = (6, 0, 0)\<rparr>\<rparr>
          0 1 \<lparr>stream = (\<lambda>q. 1 / (real q + 2)), pos = 0\<rparr>
       = Inr (NDArray [0, 2, 3] [], \<lparr>stream = (\<lambda>q. 1 / (real q + 2)), pos = 0\<rparr>)
   \<and> (0::int) \<le> 7 \<and> (7::int) \<noteq> 1
   \<and> (\<exists>X g'. random_uniform
          \<lparr>dim = 6, m = 2, n = 3, default_point_type = ''matrix'',
           metric = \<lparr>metric_dim = 6, signature = (6, 0, 0)\<rparr>\<rparr>
          7 1 \<lparr>stream = (\<lambda>q. 1 / (real q + 2)), pos = 0\<rparr> = Inr (X, g')
        \<and> shape X = [7, 2, 3])"
proof -
  let ?sp = "\<lparr>dim = 6, m = 2, n = 3, default_point_type = ''matrix'',
           metric = \<lparr>metric_dim = 6, signature = (6, 0, 0)\<rparr>\<rparr>"
  have h1: "Matrices_init (PyInt 2) (PyInt 3) = Inr ?sp"
    by (simp add: Matrices_init_def Manifold_init_def MatricesMetric_init_def Let_def)
  show ?thesis
    using h1 random_uniform_squeeze [OF h1, of 1 "\<lparr>stream = (\<lambda>q. 1 / (real q + 2)), pos = 0\<rparr>" 7]
    by (simp del: split_paired_Ex)
qed

section \<open>Rounding to doubles\<close>

lemma ilog2_bounds:
  assumes "0 < x"
  shows "2 powi ilog2 x \<le> x \<and> x < 2 powi (ilog2 x + 1)"
proof (cases "1 \<le> x")
  case True
  let ?k = "\<lfloor>x\<rfloor>"
  have k: "0 < ?k" using True by simp
  have b: "1 \<le> bitlen ?k" using k by (simp add: bitlen_alt_def)
  have lo: "2 ^ nat (bitlen ?k - 1) \<le> ?k" and hi: "?k < 2 ^ nat (bitlen ?k)"
    using bitlen_bounds [OF k] by simp_all
  have "(2::real) ^ nat (bitlen ?k - 1) \<le> of_int ?k"
    using lo by (metis of_int_le_iff of_int_numeral of_int_power)
  also have "\<dots> \<le> x" by simp
  finally have 1: "2 powi (bitlen ?k - 1) \<le> x" using b by (simp add: power_int_def)
  have "?k + 1 \<le> 2 ^ nat (bitlen ?k)" using hi by simp
  then have "(of_int (?k + 1) :: real) \<le> 2 ^ nat (bitlen ?k)"
    by (metis of_int_le_iff of_int_numeral of_int_power)
  then have "of_int ?k + 1 \<le> (2::real) ^ nat (bitlen ?k)" by simp
  moreover have "x < of_int ?k + 1" by linarith
  ultimately have "x < 2 ^ nat (bitlen ?k)" by linarith
  then have 2: "x < 2 powi (bitlen ?k)" using b by (simp add: power_int_def)
  show ?thesis using True 1 2 by (simp add: ilog2_def)
next
  case False
  let ?y = "1 / x"
  let ?c = "\<lceil>?y\<rceil>"
  have y: "1 < ?y" using False assms by simp
  then have c: "2 \<le> ?c" by linarith
  then have c1: "0 < ?c - 1" by simp
  let ?j = "bitlen (?c - 1)"
  have j: "1 \<le> ?j" using c1 by (simp add: bitlen_alt_def)
  have lo: "2 ^ nat (?j - 1) \<le> ?c - 1" and hi: "?c - 1 < 2 ^ nat ?j"
    using bitlen_bounds [OF c1] by simp_all
  have "?c \<le> 2 ^ nat ?j" using hi by simp
  then have "(of_int ?c :: real) \<le> 2 ^ nat ?j"
    by (metis of_int_le_iff of_int_numeral of_int_power)
  moreover have "?y \<le> of_int ?c" by simp
  ultimately have "?y \<le> 2 ^ nat ?j" by linarith
  then have "1 \<le> x * 2 ^ nat ?j" using assms by (simp add: field_simps)
  then have 1: "2 powi (- ?j) \<le> x"
    using j by (simp add: power_int_def field_simps)
  have "2 ^ nat (?j - 1) < ?c" using lo by simp
  then have "(2::real) ^ nat (?j - 1) < of_int ?c"
    by (metis of_int_less_iff of_int_numeral of_int_power)
  then have "(2::real) ^ nat (?j - 1) < ?y"
    by (metis (no_types) less_ceiling_iff of_int_less_iff of_int_numeral of_int_power)
  then have "x * 2 ^ nat (?j - 1) < 1" using assms by (simp add: field_simps)
  then have 2: "x < 2 powi (- ?j + 1)"
  proof (cases "?j = 1")
    case True
    then show ?thesis using \<open>x * 2 ^ nat (?j - 1) < 1\<close> by simp
  next
    case False
    then have "- ?j + 1 < 0" using j by simp
    then show ?thesis using \<open>x * 2 ^ nat (?j - 1) < 1\<close>
      by (simp add: power_int_def field_simps nat_diff_distrib)
  qed
  show ?thesis using False 1 2 by (simp add: ilog2_def)
qed

lemma ilog2_unique:
  assumes "2 powi e \<le> x" "x < 2 powi (e + 1)"
  shows "ilog2 x = e"
proof -
  have x: "0 < x" using assms(1) by (smt (verit) zero_less_power_int)
  have b: "2 powi ilog2 x \<le> x" "x < 2 powi (ilog2 x + 1)" using ilog2_bounds [OF x] by simp_all
  have "(2::real) powi e < 2 powi (ilog2 x + 1)" using assms(1) b(2) by linarith
  then have 1: "e < ilog2 x + 1"
    using power_int_increasing [of "ilog2 x + 1" e "2::real"] by (cases "e < ilog2 x + 1") auto
  have "(2::real) powi ilog2 x < 2 powi (e + 1)" using assms(2) b(1) by linarith
  then have 2: "ilog2 x < e + 1"
    using power_int_increasing [of "e + 1" "ilog2 x" "2::real"] by (cases "ilog2 x < e + 1") auto
  show ?thesis using 1 2 by simp
qed


lemma round_half_even_of_int [simp]: "round_half_even (of_int j) = j"
  by (simp add: round_half_even_def)



lemma round_grid_on_grid [simp]: "round_grid q (of_int j * 2 powi q) = of_int j * 2 powi q"
  by (simp add: round_grid_def)


lemma pow2_on_grid:
  assumes "q \<le> e"
  shows "(2::real) powi e = of_int (2 ^ nat (e - q)) * 2 powi q"
proof -
  have "(2::real) powi e = 2 powi ((e - q) + q)" by simp
  also have "\<dots> = 2 powi (e - q) * 2 powi q" by (subst power_int_add) simp_all
  also have "(2::real) powi (e - q) = 2 ^ nat (e - q)" using assms by (simp add: power_int_def)
  finally show ?thesis by simp
qed




lemma grid_le_ilog2: "grid_exponent x \<le> ilog2 x \<or> grid_exponent x = - 1074"
  by (auto simp: grid_exponent_def)



lemma fneg_fneg [simp]: "fneg (fneg d) = d"
  by (cases d) simp_all

lemma round64_minus: "round64 (- x) = fneg (round64 x)"
  by (simp add: round64_def)





lemma round64_eval:
  assumes "0 < x" "2 powi e \<le> x" "x < 2 powi (e + 1)"
  shows "round64 x =
     (let r = round_grid (max (e - 52) (- 1074)) x in if 2 ^ 1024 \<le> r then PInf else Fin r)"
  using assms ilog2_unique [OF assms(2,3)]
  by (simp add: round64_def round_pos_def grid_exponent_def)

lemma round64_exact_pos:
  assumes "x = of_int k * 2 powi q" "0 < k" "k < 2 ^ 53" "- 1074 \<le> q" "x < 2 ^ 1024"
  shows "round64 x = Fin x"
proof -
  have x: "0 < x" using assms(1,2) by simp
  let ?g = "grid_exponent x"
  have "x < 2 ^ 53 * 2 powi q"
  proof -
    have "(of_int k :: real) < of_int (2 ^ 53)" using assms(3) by (simp only: of_int_less_iff)
    then show ?thesis using assms(1) by simp
  qed
  also have "\<dots> = 2 powi (53 + q)" by (subst power_int_add) simp_all
  finally have "(2::real) powi ilog2 x < 2 powi (53 + q)" using ilog2_bounds [OF x] by linarith
  then have "ilog2 x < 53 + q"
    using power_int_increasing [of "53 + q" "ilog2 x" "2::real"]
    by (cases "ilog2 x < 53 + q") auto
  then have g: "?g \<le> q" using assms(4) by (simp add: grid_exponent_def)
  have "x = of_int (k * 2 ^ nat (q - ?g)) * 2 powi ?g"
    using pow2_on_grid [OF g] assms(1) by simp
  then have "round_grid ?g x = x" by (metis round_grid_on_grid)
  then show ?thesis using x assms(5) by (simp add: round64_def round_pos_def)
qed

lemma round64_exact:
  assumes "x = of_int k * 2 powi q" "\<bar>k\<bar> < 2 ^ 53" "- 1074 \<le> q" "\<bar>x\<bar> < 2 ^ 1024"
  shows "round64 x = Fin x"
proof -
  consider "k = 0" | "0 < k" | "k < 0" by linarith
  then show ?thesis
  proof cases
    case 1
    then show ?thesis using assms(1) by (simp add: round64_def)
  next
    case 2
    then show ?thesis using assms by (intro round64_exact_pos [of x k q]) simp_all
  next
    case 3
    have "round64 (- x) = Fin (- x)"
      using assms 3 by (intro round64_exact_pos [of "- x" "- k" q]) simp_all
    then show ?thesis using round64_minus [of x] by (cases "round64 x") simp_all
  qed
qed

lemma round64_0 [simp]: "round64 0 = Fin 0"
  by (simp add: round64_def)

lemma round64_not_NaN [simp]: "round64 x \<noteq> NaN"
  by (auto simp: round64_def round_pos_def Let_def)

lemma round64_half [simp]: "round64 (1 / 2) = Fin (1 / 2)"
  using round64_exact [of "1 / 2" 1 "- 1"] by simp

lemma round64_minus_half [simp]: "round64 (- (1 / 2)) = Fin (- (1 / 2))"
  using round64_minus [of "1 / 2"] by simp



lemma fsub_antisym: "fsub a b = fneg (fsub b a)"
proof (cases a; cases b)
  fix x y assume "a = Fin x" "b = Fin y"
  then show ?thesis using round64_minus [of "y - x"] by (simp add: fsub_def)
qed (simp_all add: fsub_def)

lemma fsub_self: "is_finite a \<Longrightarrow> fsub a a = Fin 0"
  by (cases a) (simp_all add: fsub_def)

lemma fsub_finite_not_NaN: "is_finite a \<Longrightarrow> is_finite b \<Longrightarrow> fsub a b \<noteq> NaN"
  by (cases a; cases b) (simp_all add: fsub_def)





lemma entry_in_data:
  assumes "wf_ndarray a" "valid_index (shape a) idx"
  shows "entry a idx \<in> set (data a)"
  using assms ravel_less [of idx "shape a"]
  by (simp add: entry_def wf_ndarray_def valid_index_def)

lemma list_all_tabulate:
  assumes "\<And>idx. valid_index sh idx \<Longrightarrow> P (f idx)"
  shows "list_all P (data (tabulate sh f))"
  using assms by (auto simp: tabulate_def list_all_iff valid_index_def unravel_valid)

lemma round64_of_int:
  assumes "\<bar>k\<bar> < 2 ^ 53"
  shows "round64 (of_int k) = Fin (of_int k)"
proof (rule round64_exact [of _ k 0])
  have "\<bar>of_int k :: real\<bar> = of_int \<bar>k\<bar>" by simp
  also have "\<dots> < of_int (2 ^ 53)" using assms by (simp only: of_int_less_iff)
  also have "\<dots> \<le> 2 ^ 1024" by simp
  finally show "\<bar>of_int k :: real\<bar> < 2 ^ 1024" .
qed (use assms in simp_all)

lemma round64_numeral [simp]:
  "\<bar>numeral w :: int\<bar> < 2 ^ 53 \<Longrightarrow> round64 (numeral w) = Fin (numeral w)"
  using round64_of_int [of "numeral w"] by (simp only: of_int_numeral)

lemma round64_neg_numeral [simp]:
  "\<bar>numeral w :: int\<bar> < 2 ^ 53 \<Longrightarrow> round64 (- numeral w) = Fin (- numeral w)"
  using round64_numeral [of w] round64_minus [of "numeral w"] by (simp only: fneg.simps)

lemma round64_1 [simp]: "round64 1 = Fin 1"
  using round64_of_int [of 1] by simp

lemma round64_neg_1 [simp]: "round64 (- 1) = Fin (- 1)"
  using round64_minus [of 1] by simp

section \<open>Arrays of doubles\<close>

lemma tabulate_2x2:
  "tabulate [2, 2] g = NDArray [2, 2] [g [0, 0], g [0, 1], g [1, 0], g [1, 1]]"
  by (simp add: tabulate_def upt_rec)

lemma tabulate_1x1: "tabulate [1, 1] g = NDArray [1, 1] [g [0, 0]]"
  by (simp add: tabulate_def)

lemma entry_2x2 [simp]:
  "entry (NDArray [2, 2] [a, b, c, d]) [0, 0] = a"
  "entry (NDArray [2, 2] [a, b, c, d]) [0, Suc 0] = b"
  "entry (NDArray [2, 2] [a, b, c, d]) [Suc 0, 0] = c"
  "entry (NDArray [2, 2] [a, b, c, d]) [Suc 0, Suc 0] = d"
  by (simp_all add: entry_def)

lemma all_axes_2x2:
  "all_axes (NDArray [2, 2] [a, b, c, d]) [0, 1] = Inr (NDArray [] [a \<and> b \<and> c \<and> d])"
  by (simp add: all_axes_def ndim_def tabulate_def indices_def upt_rec entry_def)

lemma shape_matrix_product64 [simp]: "shape (matrix_product64 bs r k c a b) = bs @ [r, c]"
  by (simp add: matrix_product64_def)

lemma wf_matrix_product64 [simp]: "wf_ndarray (matrix_product64 bs r k c a b)"
  by (simp add: matrix_product64_def)

lemma matmul64_tab:
  assumes "shape a = bs @ [r, k]" "shape b = bs @ [k, c]"
  shows "matmul64 a b = Inr (matrix_product64 bs r k c a b)"
proof -
  let ?G = "\<lambda>idx. let bi = take (length bs) idx; i = idx ! length bs; j = idx ! Suc (length bs)
                 in foldl fadd (Fin 0)
                      (map (\<lambda>l. fmul (entry a (broadcast_index bs bi @ [i, l]))
                                     (entry b (broadcast_index bs bi @ [l, j]))) [0..<k])"
  have "tabulate (bs @ [r, c]) ?G = matrix_product64 bs r k c a b"
    unfolding matrix_product64_def
  proof (rule tabulate_cong)
    fix idx assume "valid_index (bs @ [r, c]) idx"
    then obtain bi i j where idx: "idx = bi @ [i, j]" and bi: "valid_index bs bi"
      by (auto simp: valid_index_append)
    have len: "length bi = length bs" using bi by (rule valid_index_length)
    show "?G idx = foldl fadd (Fin 0)
          (map (\<lambda>l. fmul (entry a (butlast (butlast idx) @ [last (butlast idx), l]))
                         (entry b (butlast (butlast idx) @ [l, last idx]))) [0..<k])"
      using len broadcast_index_same [OF bi]
      by (simp add: idx Let_def butlast_append nth_append)
  qed
  moreover have "NDArray (bs @ [r, c]) (data (tabulate (bs @ [r, c]) ?G)) = tabulate (bs @ [r, c]) ?G"
    by (simp add: tabulate_def)
  ultimately have "NDArray (bs @ [r, c]) (data (tabulate (bs @ [r, c]) ?G)) = matrix_product64 bs r k c a b"
    by (simp only:)
  then show ?thesis using assms
    by (simp add: matmul64_def ndim_def Let_def butlast_append)
qed

lemma mul64_two [simp]: "mul64 [a, b] = matmul64 a b"
  by (simp add: mul64_def)

lemma mul64_three: "mul64 [a, b, c] = bind_result (matmul64 a b) (\<lambda>p. matmul64 p c)"
  by (simp add: mul64_def)

lemma bracket64_tab:
  assumes "shape a = bs @ [k, k]" "shape b = bs @ [k, k]"
  shows "bracket64 a b = Inr (tabulate (bs @ [k, k])
           (\<lambda>idx. fsub (entry (matrix_product64 bs k k k a b) idx)
                        (entry (matrix_product64 bs k k k b a) idx)))"
  using assms
    elementwise_same [of "matrix_product64 bs k k k a b" "matrix_product64 bs k k k b a" fsub]
  by (simp add: bracket64_def matmul64_tab nd_sub64_def)

lemma matrix_product64_2x2:
  "matrix_product64 [] 2 2 2 (NDArray [2, 2] [a0, a1, a2, a3]) (NDArray [2, 2] [b0, b1, b2, b3]) =
     NDArray [2, 2]
       [fadd (fadd (Fin 0) (fmul a0 b0)) (fmul a1 b2), fadd (fadd (Fin 0) (fmul a0 b1)) (fmul a1 b3),
        fadd (fadd (Fin 0) (fmul a2 b0)) (fmul a3 b2), fadd (fadd (Fin 0) (fmul a2 b1)) (fmul a3 b3)]"
  by (simp add: matrix_product64_def tabulate_2x2 upt_rec)

lemma matmul64_2x2:
  "matmul64 (NDArray [2, 2] [a0, a1, a2, a3]) (NDArray [2, 2] [b0, b1, b2, b3]) =
     Inr (NDArray [2, 2]
       [fadd (fadd (Fin 0) (fmul a0 b0)) (fmul a1 b2), fadd (fadd (Fin 0) (fmul a0 b1)) (fmul a1 b3),
        fadd (fadd (Fin 0) (fmul a2 b0)) (fmul a3 b2), fadd (fadd (Fin 0) (fmul a2 b1)) (fmul a3 b3)])"
  using matmul64_tab [of "NDArray [2, 2] [a0, a1, a2, a3]" "[]" 2 2 "NDArray [2, 2] [b0, b1, b2, b3]" 2]
  by (simp add: matrix_product64_2x2)

lemma elementwise_2x2:
  "elementwise f (NDArray [2, 2] [a0, a1, a2, a3]) (NDArray [2, 2] [b0, b1, b2, b3]) =
     Inr (NDArray [2, 2] [f a0 b0, f a1 b1, f a2 b2, f a3 b3])"
  using elementwise_same [of "NDArray [2, 2] [a0, a1, a2, a3]" "NDArray [2, 2] [b0, b1, b2, b3]" f]
  by (simp add: tabulate_2x2)

lemma transpose_mat_2x2:
  "transpose_mat (NDArray [2, 2] [a0, a1, a2, a3]) = Inr (NDArray [2, 2] [a0, a2, a1, a3])"
  using transpose_mat_tab [of "NDArray [2, 2] [a0, a1, a2, a3]" "[]" 2 2]
  by (simp add: tabulate_2x2 swap_last2_def)

lemma bracket64_2x2:
  "bracket64 (NDArray [2, 2] [a0, a1, a2, a3]) (NDArray [2, 2] [b0, b1, b2, b3]) =
     bind_result (matmul64 (NDArray [2, 2] [a0, a1, a2, a3]) (NDArray [2, 2] [b0, b1, b2, b3])) (\<lambda>ab.
     bind_result (matmul64 (NDArray [2, 2] [b0, b1, b2, b3]) (NDArray [2, 2] [a0, a1, a2, a3])) (\<lambda>ba.
       nd_sub64 ab ba))"
  by (simp add: bracket64_def)

section \<open>The commutator over doubles\<close>

text \<open>
  Claim C4.  In double arithmetic, for square matrices \<open>a\<close> and \<open>b\<close> of one shape
  (single matrices or batches): \<open>bracket(a, b)\<close> is the negation of \<open>bracket(b, a)\<close>,
  entry by entry, and no entry is NaN when the products \<open>a \<cdot> b\<close> and \<open>b \<cdot> a\<close> have only
  finite entries; \<open>bracket(a, a)\<close> is the zero matrix when the product \<open>a \<cdot> a\<close> has only
  finite entries.
\<close>

theorem bracket_antisymmetric_double:
  assumes "shape a = bs @ [k, k]" "shape b = shape a"
  shows "\<exists>ab ba aa c d.
     matmul64 a b = Inr ab \<and> matmul64 b a = Inr ba \<and> matmul64 a a = Inr aa
     \<and> bracket64 a b = Inr c \<and> bracket64 b a = Inr d \<and> c = nd_neg64 d
     \<and> (list_all is_finite (data ab) \<and> list_all is_finite (data ba)
          \<longrightarrow> list_all (\<lambda>x. x \<noteq> NaN) (data c))
     \<and> (list_all is_finite (data aa) \<longrightarrow> bracket64 a a = Inr (zeros64 (shape a)))"
proof -
  let ?sh = "bs @ [k, k]"
  let ?ab = "matrix_product64 bs k k k a b"
  let ?ba = "matrix_product64 bs k k k b a"
  let ?aa = "matrix_product64 bs k k k a a"
  let ?c = "tabulate ?sh (\<lambda>idx. fsub (entry ?ab idx) (entry ?ba idx))"
  let ?d = "tabulate ?sh (\<lambda>idx. fsub (entry ?ba idx) (entry ?ab idx))"
  have b: "shape b = ?sh" using assms by simp
  have m: "matmul64 a b = Inr ?ab" "matmul64 b a = Inr ?ba" "matmul64 a a = Inr ?aa"
    using assms(1) b by (simp_all add: matmul64_tab)
  have br: "bracket64 a b = Inr ?c" "bracket64 b a = Inr ?d"
    using bracket64_tab [OF assms(1) b] bracket64_tab [OF b assms(1)] by simp_all
  have neg: "?c = nd_neg64 ?d"
    unfolding nd_neg64_def map_ndarray_tabulate
    by (rule tabulate_cong) (rule fsub_antisym)
  have nan: "list_all (\<lambda>x. x \<noteq> NaN) (data ?c)"
    if fin: "list_all is_finite (data ?ab) \<and> list_all is_finite (data ?ba)"
  proof (rule list_all_tabulate)
    fix idx assume v: "valid_index ?sh idx"
    have "entry ?ab idx \<in> set (data ?ab)" "entry ?ba idx \<in> set (data ?ba)"
      using v by (simp_all add: entry_in_data)
    then have "is_finite (entry ?ab idx)" "is_finite (entry ?ba idx)"
      using fin by (auto simp: list_all_iff)
    then show "fsub (entry ?ab idx) (entry ?ba idx) \<noteq> NaN" by (rule fsub_finite_not_NaN)
  qed
  have zero: "bracket64 a a = Inr (zeros64 (shape a))" if fin: "list_all is_finite (data ?aa)"
  proof -
    have "tabulate ?sh (\<lambda>idx. fsub (entry ?aa idx) (entry ?aa idx)) = tabulate ?sh (\<lambda>_. Fin 0)"
    proof (rule tabulate_cong)
      fix idx assume v: "valid_index ?sh idx"
      have "entry ?aa idx \<in> set (data ?aa)" using v by (simp add: entry_in_data)
      then have "is_finite (entry ?aa idx)" using fin by (auto simp: list_all_iff)
      then show "fsub (entry ?aa idx) (entry ?aa idx) = Fin 0" by (rule fsub_self)
    qed
    then show ?thesis
      using bracket64_tab [OF assms(1) assms(1)] assms(1)
      by (simp add: tabulate_const zeros64_def)
  qed
  show ?thesis using m br neg nan zero by blast
qed

theorem bracket_antisymmetric_double_witness:
  "shape (NDArray [2, 2] [Fin 1, Fin 2, Fin 3, Fin 4]) = [] @ [2, 2]
   \<and> shape (NDArray [2, 2] [Fin 0, Fin 1, Fin (- 1), Fin 0])
        = shape (NDArray [2, 2] [Fin 1, Fin 2, Fin 3, Fin 4])
   \<and> matmul64 (NDArray [2, 2] [Fin 1, Fin 2, Fin 3, Fin 4])
               (NDArray [2, 2] [Fin 0, Fin 1, Fin (- 1), Fin 0])
        = Inr (NDArray [2, 2] [Fin (- 2), Fin 1, Fin (- 4), Fin 3])
   \<and> matmul64 (NDArray [2, 2] [Fin 0, Fin 1, Fin (- 1), Fin 0])
               (NDArray [2, 2] [Fin 1, Fin 2, Fin 3, Fin 4])
        = Inr (NDArray [2, 2] [Fin 3, Fin 4, Fin (- 1), Fin (- 2)])
   \<and> matmul64 (NDArray [2, 2] [Fin 1, Fin 2, Fin 3, Fin 4])
               (NDArray [2, 2] [Fin 1, Fin 2, Fin 3, Fin 4])
        = Inr (NDArray [2, 2] [Fin 7, Fin 10, Fin 15, Fin 22])
   \<and> bracket64 (NDArray [2, 2] [Fin 1, Fin 2, Fin 3, Fin 4])
                (NDArray [2, 2] [Fin 0, Fin 1, Fin (- 1), Fin 0])
        = Inr (NDArray [2, 2] [Fin (- 5), Fin (- 3), Fin (- 3), Fin 5])
   \<and> bracket64 (NDArray [2, 2] [Fin 0, Fin 1, Fin (- 1), Fin 0])
                (NDArray [2, 2] [Fin 1, Fin 2, Fin 3, Fin 4])
        = Inr (NDArray [2, 2] [Fin 5, Fin 3, Fin 3, Fin (- 5)])
   \<and> NDArray [2, 2] [Fin (- 5), Fin (- 3), Fin (- 3), Fin 5]
        = nd_neg64 (NDArray [2, 2] [Fin 5, Fin 3, Fin 3, Fin (- 5)])
   \<and> bracket64 (NDArray [2, 2] [Fin 1, Fin 2, Fin 3, Fin 4])
                (NDArray [2, 2] [Fin 1, Fin 2, Fin 3, Fin 4])
        = Inr (zeros64 [2, 2])"
proof -
  let ?A = "NDArray [2, 2] [Fin 1, Fin 2, Fin 3, Fin 4]"
  let ?B = "NDArray [2, 2] [Fin 0, Fin 1, Fin (- 1), Fin 0]"
  have ab: "matmul64 ?A ?B = Inr (NDArray [2, 2] [Fin (- 2), Fin 1, Fin (- 4), Fin 3])"
    and ba: "matmul64 ?B ?A = Inr (NDArray [2, 2] [Fin 3, Fin 4, Fin (- 1), Fin (- 2)])"
    and aa: "matmul64 ?A ?A = Inr (NDArray [2, 2] [Fin 7, Fin 10, Fin 15, Fin 22])"
    by (simp_all add: matmul64_2x2)
  have c: "bracket64 ?A ?B = Inr (NDArray [2, 2] [Fin (- 5), Fin (- 3), Fin (- 3), Fin 5])"
    and d: "bracket64 ?B ?A = Inr (NDArray [2, 2] [Fin 5, Fin 3, Fin 3, Fin (- 5)])"
    by (simp_all add: bracket64_def ab ba nd_sub64_def elementwise_2x2 fsub_def)
  show ?thesis
    using bracket_antisymmetric_double [of ?A "[]" 2 ?B] ab ba aa c d
    by auto
qed

text \<open>
  When a product overflows the claim fails: for \<open>a = diag(2^512, 2^512)\<close> the product
  \<open>a \<cdot> a\<close> has the entry \<open>inf\<close>, and \<open>bracket(a, a)\<close> has the entry \<open>inf - inf = NaN\<close>, which
  is not zero and not equal to its own negation.
\<close>

theorem bracket_zero_counterexample:
  "bracket64 (NDArray [2, 2] [Fin (2 ^ 512), Fin 0, Fin 0, Fin (2 ^ 512)])
             (NDArray [2, 2] [Fin (2 ^ 512), Fin 0, Fin 0, Fin (2 ^ 512)])
     = Inr (NDArray [2, 2] [NaN, Fin 0, Fin 0, NaN])
   \<and> NDArray [2, 2] [NaN, Fin 0, Fin 0, NaN] \<noteq> zeros64 [2, 2]
   \<and> \<not> feq NaN (fneg NaN)"
proof -
  define h :: real where "h = 2 ^ 512"
  have "round64 (h * h) = PInf"
    unfolding h_def
    by (simp add: round64_eval [where e = 1024] round_grid_def round_half_even_def Let_def)
  then have "bracket64 (NDArray [2, 2] [Fin h, Fin 0, Fin 0, Fin h])
                       (NDArray [2, 2] [Fin h, Fin 0, Fin 0, Fin h])
               = Inr (NDArray [2, 2] [NaN, Fin 0, Fin 0, NaN])"
    by (simp add: bracket64_2x2 matmul64_2x2 nd_sub64_def elementwise_2x2 fsub_def)
  moreover have "NDArray [2, 2] [NaN, Fin 0, Fin 0, NaN] \<noteq> zeros64 [2, 2]"
    by (simp add: zeros64_def eval_nat_numeral)
  ultimately show ?thesis unfolding h_def by simp
qed

section \<open>The inner product over doubles\<close>











section \<open>Uniform sampling over doubles\<close>








section \<open>Symmetric and skew-symmetric part over doubles\<close>

lemma rtol64_value: "rtol64 = Fin (5902958103587057 / 2 ^ 69)"
  unfolding rtol64_def
  by (simp add: round64_eval [where e = "- 17"] round_grid_def round_half_even_def Let_def)

lemma TOLERANCE64_value: "TOLERANCE64 = Fin (5902958103587057 / 2 ^ 69)"
  using rtol64_value by (simp add: TOLERANCE64_def rtol64_def)

lemma round64_tolerance: "round64 (5902958103587057 / 2 ^ 69) = Fin (5902958103587057 / 2 ^ 69)"
  by (rule round64_exact [of _ 5902958103587057 "- 69"]) simp_all




lemma equal_mat64_2x2:
  "equal_mat64 (NDArray [2, 2] [a0, a1, a2, a3]) (NDArray [2, 2] [b0, b1, b2, b3]) atol =
     Inr (NDArray [] [close64 atol a0 b0 \<and> close64 atol a1 b1
                      \<and> close64 atol a2 b2 \<and> close64 atol a3 b3])"
  using all_axes_2x2 [of "close64 atol a0 b0" "close64 atol a1 b1"
      "close64 atol a2 b2" "close64 atol a3 b3"]
  by (simp add: equal_mat64_def ndim_def isclose64_def elementwise_2x2)









section \<open>The congruence action over doubles\<close>

lemma congruent_mat64_tab:
  assumes "shape A = bs @ [k, k]" "shape B = bs @ [k, k]" "length bs \<le> 1"
  shows "congruent_mat64 A B =
     Inr (matrix_product64 bs k k k (matrix_product64 bs k k k B A)
            (tabulate (bs @ [k, k]) (\<lambda>idx. entry B (swap_last2 idx))))"
proof -
  let ?Bt = "tabulate (bs @ [k, k]) (\<lambda>idx. entry B (swap_last2 idx))"
  have "transpose_mat B = Inr ?Bt" using assms(2,3) by (rule transpose_mat_tab)
  moreover have "matmul64 B A = Inr (matrix_product64 bs k k k B A)"
    using assms(2,1) by (rule matmul64_tab)
  moreover have "matmul64 (matrix_product64 bs k k k B A) ?Bt
      = Inr (matrix_product64 bs k k k (matrix_product64 bs k k k B A) ?Bt)"
    by (rule matmul64_tab) simp_all
  ultimately show ?thesis by (simp add: congruent_mat64_def mul64_three)
qed

text \<open>
  Claim C8.  For square matrices \<open>mat_1\<close> and \<open>mat_2\<close> of one shape (single matrices or
  batches), \<open>congruent(mat_1, mat_2)\<close> is the product \<open>(mat_2 \<cdot> mat_1) \<cdot> transpose(mat_2)\<close>,
  in double arithmetic as over exact real arithmetic; over exact real arithmetic the
  result is symmetric when \<open>mat_1\<close> is.
\<close>

theorem congruent_product_double:
  assumes "shape A = bs @ [k, k]" "shape B = shape A" "length bs \<le> 1"
    and "shape X = bs' @ [k', k']" "shape Y = shape X" "length bs' \<le> 1"
  shows "(\<exists>Bt P C.
            transpose_mat B = Inr Bt \<and> matmul64 B A = Inr P \<and> matmul64 P Bt = Inr C
            \<and> congruent_mat64 A B = Inr C
            \<and> P = matrix_product64 bs k k k B A \<and> C = matrix_product64 bs k k k P Bt)
       \<and> (\<exists>Yt P C.
            transpose_mat Y = Inr Yt \<and> matmul Y X = Inr P \<and> matmul P Yt = Inr C
            \<and> congruent_mat X Y = Inr C
            \<and> P = matrix_product bs' k' k' k' Y X \<and> C = matrix_product bs' k' k' k' P Yt
            \<and> (transpose_mat X = Inr X \<longrightarrow>
                 transpose_mat C = Inr C
                 \<and> is_symmetric C TOLERANCE = Inr (NDArray bs' (replicate (prod_list bs') True))))"
proof -
  let ?Bt = "tabulate (bs @ [k, k]) (\<lambda>idx. entry B (swap_last2 idx))"
  let ?P = "matrix_product64 bs k k k B A"
  have B: "shape B = bs @ [k, k]" using assms by simp
  have "transpose_mat B = Inr ?Bt" using B assms(3) by (rule transpose_mat_tab)
  moreover have "matmul64 B A = Inr ?P" using B assms(1) by (rule matmul64_tab)
  moreover have "matmul64 ?P ?Bt = Inr (matrix_product64 bs k k k ?P ?Bt)"
    by (rule matmul64_tab) simp_all
  moreover have "congruent_mat64 A B = Inr (matrix_product64 bs k k k ?P ?Bt)"
    using assms(1) B assms(3) by (rule congruent_mat64_tab)
  ultimately show ?thesis
    using congruent_product_symmetric [OF assms(4-6)] by blast
qed

theorem congruent_product_double_witness:
  "shape (NDArray [2, 2] [Fin 2, Fin 1, Fin 1, Fin 3]) = [] @ [2, 2]
   \<and> shape (NDArray [2, 2] [Fin 1, Fin 2, Fin 3, Fin 4])
        = shape (NDArray [2, 2] [Fin 2, Fin 1, Fin 1, Fin 3])
   \<and> length ([] :: nat list) \<le> 1
   \<and> (\<exists>C. congruent_mat64 (NDArray [2, 2] [Fin 2, Fin 1, Fin 1, Fin 3])
                            (NDArray [2, 2] [Fin 1, Fin 2, Fin 3, Fin 4]) = Inr C
          \<and> shape C = [2, 2])
   \<and> transpose_mat (NDArray [2, 2] [2, 1, 1, 3 :: real]) = Inr (NDArray [2, 2] [2, 1, 1, 3])
   \<and> (\<exists>C. congruent_mat (NDArray [2, 2] [2, 1, 1, 3]) (NDArray [2, 2] [1, 2, 3, 4]) = Inr C
        \<and> transpose_mat C = Inr C
        \<and> is_symmetric C TOLERANCE = Inr (NDArray [] [True]))"
proof -
  have h: "transpose_mat (NDArray [2, 2] [2, 1, 1, 3 :: real]) = Inr (NDArray [2, 2] [2, 1, 1, 3])"
    by (simp add: transpose_mat_2x2)
  show ?thesis
    using h congruent_product_double
      [of "NDArray [2, 2] [Fin 2, Fin 1, Fin 1, Fin 3]" "[]" 2
          "NDArray [2, 2] [Fin 1, Fin 2, Fin 3, Fin 4]"
          "NDArray [2, 2] [2, 1, 1, 3]" "[]" 2 "NDArray [2, 2] [1, 2, 3, 4]"]
    by auto
qed

text \<open>
  In doubles the result for a symmetric \<open>mat_1\<close> need not be symmetric, not even within
  the tolerance of \<open>is_symmetric\<close>: for \<open>mat_1 = [[0, 1], [1, 1]]\<close> and
  \<open>mat_2 = [[1, -1], [1, 2^53]]\<close> the entry \<open>1 + 2^53\<close> of \<open>mat_2 \<cdot> mat_1\<close> rounds to \<open>2^53\<close>, and
  the result is \<open>[[-1, -1], [0, 2^106]]\<close>.
\<close>

theorem congruent_symmetry_double_counterexample:
  "transpose_mat (NDArray [2, 2] [Fin 0, Fin 1, Fin 1, Fin 1])
     = Inr (NDArray [2, 2] [Fin 0, Fin 1, Fin 1, Fin 1])
   \<and> congruent_mat64 (NDArray [2, 2] [Fin 0, Fin 1, Fin 1, Fin 1])
                      (NDArray [2, 2] [Fin 1, Fin (- 1), Fin 1, Fin (2 ^ 53)])
     = Inr (NDArray [2, 2] [Fin (- 1), Fin (- 1), Fin 0, Fin (2 ^ 106)])
   \<and> transpose_mat (NDArray [2, 2] [Fin (- 1), Fin (- 1), Fin 0, Fin (2 ^ 106)])
     = Inr (NDArray [2, 2] [Fin (- 1), Fin 0, Fin (- 1), Fin (2 ^ 106)])
   \<and> NDArray [2, 2] [Fin (- 1), Fin 0, Fin (- 1), Fin (2 ^ 106)]
     \<noteq> NDArray [2, 2] [Fin (- 1), Fin (- 1), Fin 0, Fin (2 ^ 106)]
   \<and> is_symmetric64 (NDArray [2, 2] [Fin (- 1), Fin (- 1), Fin 0, Fin (2 ^ 106)]) TOLERANCE64
     = Inr (NDArray [] [False])"
proof -
  have f1: "round64 (1 + 2 ^ 53) = Fin (2 ^ 53)"
    by (simp add: round64_eval [where e = 53] round_grid_def round_half_even_def Let_def)
  have f2: "round64 (2 ^ 53) = Fin (2 ^ 53)"
    by (rule round64_exact [of _ 1 53]) simp_all
  have f3: "round64 (- (2 ^ 53)) = Fin (- (2 ^ 53))"
    using f2 round64_minus [of "2 ^ 53"] by simp
  have f4: "round64 (2 ^ 106) = Fin (2 ^ 106)"
    by (rule round64_exact [of _ 1 106]) simp_all
  have f5: "round64 (2 ^ 53 + 2 ^ 106) = Fin (2 ^ 106)"
    by (simp add: round64_eval [where e = 106] round_grid_def round_half_even_def Let_def)
  have p: "matmul64 (NDArray [2, 2] [Fin 1, Fin (- 1), Fin 1, Fin (2 ^ 53)])
                    (NDArray [2, 2] [Fin 0, Fin 1, Fin 1, Fin 1])
     = Inr (NDArray [2, 2] [Fin (- 1), Fin 0, Fin (2 ^ 53), Fin (2 ^ 53)])"
    using f1 f2 by (simp add: matmul64_2x2)
  have c: "matmul64 (NDArray [2, 2] [Fin (- 1), Fin 0, Fin (2 ^ 53), Fin (2 ^ 53)])
                    (NDArray [2, 2] [Fin 1, Fin 1, Fin (- 1), Fin (2 ^ 53)])
     = Inr (NDArray [2, 2] [Fin (- 1), Fin (- 1), Fin 0, Fin (2 ^ 106)])"
    using f2 f3 f4 f5 by (simp add: matmul64_2x2)
  have g: "congruent_mat64 (NDArray [2, 2] [Fin 0, Fin 1, Fin 1, Fin 1])
                      (NDArray [2, 2] [Fin 1, Fin (- 1), Fin 1, Fin (2 ^ 53)])
     = Inr (NDArray [2, 2] [Fin (- 1), Fin (- 1), Fin 0, Fin (2 ^ 106)])"
    using p c by (simp add: congruent_mat64_def transpose_mat_2x2 mul64_three)
  have "\<not> close64 TOLERANCE64 (Fin (- 1)) (Fin 0)"
    using round64_tolerance
    by (simp add: close64_def TOLERANCE64_value rtol64_value fsub_def)
  then have e: "is_symmetric64 (NDArray [2, 2] [Fin (- 1), Fin (- 1), Fin 0, Fin (2 ^ 106)]) TOLERANCE64
     = Inr (NDArray [] [False])"
    by (simp add: is_symmetric64_def transpose_mat_2x2 equal_mat64_2x2)
  show ?thesis using g e by (simp add: transpose_mat_2x2)
qed

end
